theory Spec2Isabelle
  imports Main "HOL-Library.Sublist"
begin

section \<open>JavaScript strings\<close>

text \<open>
  A JavaScript string is a sequence of UTF-16 code units. A code unit is modelled as a
  natural number (the values below 65536 are the code units of JavaScript), so that the
  non-ASCII literals of the source (the emoji of the progress log, the phrase
  \<open>Working\<close> followed by the three code units 226, 8364, 166 of the status script) can be
  written down. \<open>str\<close> turns an ASCII literal into its code units.
\<close>

type_synonym jsstring = "nat list"

definition str :: "string \<Rightarrow> jsstring" where
  "str s = map of_char s"

text \<open>\<open>String.prototype.startsWith\<close> (from position 0).\<close>

definition startsWith :: "jsstring \<Rightarrow> jsstring \<Rightarrow> bool" where
  "startsWith s p = (take (length p) s = p)"

text \<open>
  \<open>String.prototype.indexOf(p, from)\<close>: the first index at or after \<open>from\<close> (clamped
  to the string) where \<open>p\<close> occurs, and \<open>-1\<close> when there is none. \<open>indexOfAux p s i\<close>
  scans the suffix \<open>s\<close> that starts at index \<open>i\<close>.
\<close>

fun indexOfAux :: "jsstring \<Rightarrow> jsstring \<Rightarrow> nat \<Rightarrow> int" where
  "indexOfAux p [] i = (if p = [] then int i else - 1)"
| "indexOfAux p (c # cs) i =
     (if startsWith (c # cs) p then int i else indexOfAux p cs (Suc i))"

definition indexOf :: "jsstring \<Rightarrow> jsstring \<Rightarrow> int \<Rightarrow> int" where
  "indexOf s p pos = (let k = min (nat pos) (length s) in indexOfAux p (drop k s) k)"

definition includesStr :: "jsstring \<Rightarrow> jsstring \<Rightarrow> bool" where
  "includesStr s p = (indexOf s p 0 \<noteq> - 1)"

text \<open>
  \<open>String.prototype.substring(a, b)\<close>: both arguments are clamped to the string and
  swapped when out of order. \<open>substringFrom\<close> is the call with one argument.
\<close>

definition substring :: "jsstring \<Rightarrow> int \<Rightarrow> int \<Rightarrow> jsstring" where
  "substring s a b =
     (let finalStart = min (nat a) (length s);
          finalEnd = min (nat b) (length s);
          lo = min finalStart finalEnd;
          hi = max finalStart finalEnd
      in take (hi - lo) (drop lo s))"

definition substringFrom :: "jsstring \<Rightarrow> int \<Rightarrow> jsstring" where
  "substringFrom s a = substring s a (int (length s))"

text \<open>
  \<open>String.prototype.trim\<close> removes leading and trailing white space and line
  terminators: TAB, LF, VT, FF, CR, SPACE, NBSP, U+1680, U+2000 to U+200A, U+2028, U+2029,
  U+202F, U+205F, U+3000 and U+FEFF.
\<close>

definition isWhiteSpace :: "nat \<Rightarrow> bool" where
  "isWhiteSpace c =
     ((9 \<le> c \<and> c \<le> 13) \<or> c = 32 \<or> c = 160 \<or> c = 5760 \<or> (8192 \<le> c \<and> c \<le> 8202) \<or>
      c = 8232 \<or> c = 8233 \<or> c = 8239 \<or> c = 8287 \<or> c = 12288 \<or> c = 65279)"

definition trim :: "jsstring \<Rightarrow> jsstring" where
  "trim s = rev (dropWhile isWhiteSpace (rev (dropWhile isWhiteSpace s)))"

text \<open>
  \<open>String.prototype.toLowerCase\<close> on the ASCII letters. The script lowers an
  \<open>aria-label\<close> only to look for \<open>stop\<close> in it; no character outside \<open>A\<close> to \<open>Z\<close>
  lowers to one of \<open>s\<close>, \<open>t\<close>, \<open>o\<close>, \<open>p\<close>, so the other code units are left as they are.
\<close>

definition toLowerCase :: "jsstring \<Rightarrow> jsstring" where
  "toLowerCase s = map (\<lambda>c. if 65 \<le> c \<and> c \<le> 90 then c + 32 else c) s"

text \<open>\<open>Array.prototype.join\<close>.\<close>

fun join :: "jsstring \<Rightarrow> jsstring list \<Rightarrow> jsstring" where
  "join sep [] = []"
| "join sep [x] = x"
| "join sep (x # y # ys) = x @ sep @ join sep (y # ys)"

section \<open>The regular expressions of the status script\<close>

text \<open>
  The script's regular expressions are sequences of single-character atoms, each taken
  once or under a greedy \<open>?\<close>, \<open>*\<close> or \<open>+\<close>. \<open>matchHere\<close> is the backtracking matcher
  anchored at the start of its input: it returns the length of the match that JavaScript
  finds (greedy choices first). With the \<open>i\<close> flag two code units match when their
  canonical forms agree; the literals of the script are ASCII, for which the canonical
  form is the upper-case letter and no code unit outside ASCII matches.
\<close>

datatype rxatom = Lit nat | Digit | NotNewline

datatype rxitem = One rxatom | Opt rxatom | Star rxatom | Plus rxatom

type_synonym regex = "rxitem list"

definition canonicalize :: "nat \<Rightarrow> nat" where
  "canonicalize c = (if 97 \<le> c \<and> c \<le> 122 then c - 32 else c)"

fun atomOk :: "bool \<Rightarrow> rxatom \<Rightarrow> nat \<Rightarrow> bool" where
  "atomOk ci (Lit p) c = (if ci then canonicalize c = canonicalize p else c = p)"
| "atomOk ci Digit c = (48 \<le> c \<and> c \<le> 57)"
| "atomOk ci NotNewline c = (c \<noteq> 10)"

fun matchHere :: "bool \<Rightarrow> regex \<Rightarrow> jsstring \<Rightarrow> nat option" where
  "matchHere ci [] s = Some 0"
| "matchHere ci (One a # r) [] = None"
| "matchHere ci (One a # r) (c # cs) =
     (if atomOk ci a c then map_option Suc (matchHere ci r cs) else None)"
| "matchHere ci (Opt a # r) [] = matchHere ci r []"
| "matchHere ci (Opt a # r) (c # cs) =
     (if atomOk ci a c
      then (case matchHere ci r cs of
              Some n \<Rightarrow> Some (Suc n)
            | None \<Rightarrow> matchHere ci r (c # cs))
      else matchHere ci r (c # cs))"
| "matchHere ci (Star a # r) [] = matchHere ci r []"
| "matchHere ci (Star a # r) (c # cs) =
     (if atomOk ci a c
      then (case matchHere ci (Star a # r) cs of
              Some n \<Rightarrow> Some (Suc n)
            | None \<Rightarrow> matchHere ci r (c # cs))
      else matchHere ci r (c # cs))"
| "matchHere ci (Plus a # r) [] = None"
| "matchHere ci (Plus a # r) (c # cs) =
     (if atomOk ci a c then map_option Suc (matchHere ci (Star a # r) cs) else None)"

text \<open>
  The leftmost match: its index and its length. \<open>rxTest\<close> is \<open>RegExp.prototype.test\<close>,
  \<open>rxMatch\<close> is element 0 of \<open>String.prototype.match\<close> without the \<open>g\<close> flag.
\<close>

fun rxSearch :: "bool \<Rightarrow> regex \<Rightarrow> jsstring \<Rightarrow> (nat \<times> nat) option" where
  "rxSearch ci r [] = (case matchHere ci r [] of Some n \<Rightarrow> Some (0, n) | None \<Rightarrow> None)"
| "rxSearch ci r (c # cs) =
     (case matchHere ci r (c # cs) of
        Some n \<Rightarrow> Some (0, n)
      | None \<Rightarrow> (case rxSearch ci r cs of Some (i, n) \<Rightarrow> Some (Suc i, n) | None \<Rightarrow> None))"

definition rxTest :: "bool \<Rightarrow> regex \<Rightarrow> jsstring \<Rightarrow> bool" where
  "rxTest ci r s = (rxSearch ci r s \<noteq> None)"

definition rxMatch :: "bool \<Rightarrow> regex \<Rightarrow> jsstring \<Rightarrow> jsstring option" where
  "rxMatch ci r s =
     (case rxSearch ci r s of Some (i, n) \<Rightarrow> Some (take n (drop i s)) | None \<Rightarrow> None)"

text \<open>
  \<open>String.prototype.match\<close> with the \<open>g\<close> flag: every match from left to right, the
  search resuming where the previous match ended (one code unit further after an empty
  match). \<open>skip\<close> counts the code units of the previous match still to pass. The empty
  list stands for \<open>null\<close>.
\<close>

fun rxMatchAll :: "bool \<Rightarrow> regex \<Rightarrow> jsstring \<Rightarrow> nat \<Rightarrow> jsstring list" where
  "rxMatchAll ci r [] skip = (case matchHere ci r [] of Some n \<Rightarrow> [[]] | None \<Rightarrow> [])"
| "rxMatchAll ci r (c # cs) skip =
     (if 0 < skip then rxMatchAll ci r cs (skip - 1)
      else (case matchHere ci r (c # cs) of
              Some n \<Rightarrow> take n (c # cs) # rxMatchAll ci r cs (n - 1)
            | None \<Rightarrow> rxMatchAll ci r cs 0))"

definition lits :: "string \<Rightarrow> regex" where
  "lits s = map (\<lambda>c. One (Lit c)) (str s)"

section \<open>The status script of \<open>CometAI.getAgentStatus\<close>\<close>

text \<open>
  The script runs inside the page. What it reads of the page is the snapshot: the inner
  text of the body, the \<open>button\<close> elements in document order, whether an element
  matches the spinner selector, and the inner texts of the elements whose class contains
  \<open>prose\<close>, in document order.
\<close>

record button =
  hasRect :: bool
  ariaLabel :: "jsstring option"
  offsetParentNull :: bool
  disabled :: bool

record snapshot =
  body :: jsstring
  buttons :: "button list"
  spinnerPresent :: bool
  proseEls :: "jsstring list"

datatype task_status = Idle | Working | Completed

record eval_result =
  status :: task_status
  steps :: "jsstring list"
  currentStep :: jsstring
  response :: jsstring
  hasStopButton :: bool

text \<open>The loop over the buttons: the flag is set at the first button that qualifies.\<close>

definition isActiveStop :: "button \<Rightarrow> bool" where
  "isActiveStop btn =
     ((hasRect btn \<or>
       includesStr (toLowerCase (case ariaLabel btn of None \<Rightarrow> [] | Some l \<Rightarrow> l)) (str ''stop'')) \<and>
      \<not> offsetParentNull btn \<and> \<not> disabled btn)"

fun hasActiveStopButton :: "button list \<Rightarrow> bool" where
  "hasActiveStopButton [] = False"
| "hasActiveStopButton (btn # btns) = (if isActiveStop btn then True else hasActiveStopButton btns)"

definition stepsCompletedRx :: regex where
  "stepsCompletedRx = [Plus Digit] @ lits '' step'' @ [Opt (Lit 115)] @ lits '' completed''"

definition reviewedRx :: regex where
  "reviewedRx = lits ''Reviewed '' @ [Plus Digit] @ lits '' source'' @ [Opt (Lit 115)]"

definition workingPatterns :: "jsstring list" where
  "workingPatterns =
     [str ''Working'' @ [226, 8364, 166], str ''Working...'', str ''Searching'',
      str ''Reviewing sources'', str ''Preparing to assist'', str ''Clicking'',
      str ''Typing:'', str ''Navigating to'', str ''Reading'', str ''Analyzing'']"

fun someIncluded :: "jsstring \<Rightarrow> jsstring list \<Rightarrow> bool" where
  "someIncluded b [] = False"
| "someIncluded b (p # ps) = (if includesStr b p then True else someIncluded b ps)"

definition hasStepsCompleted :: "jsstring \<Rightarrow> bool" where
  "hasStepsCompleted b = rxTest True stepsCompletedRx b"

definition hasFinishedMarker :: "snapshot \<Rightarrow> bool" where
  "hasFinishedMarker snap =
     (includesStr (body snap) (str ''Finished'') \<and> \<not> hasActiveStopButton (buttons snap))"

definition hasReviewedSources :: "jsstring \<Rightarrow> bool" where
  "hasReviewedSources b = rxTest True reviewedRx b"

definition hasWorkingText :: "jsstring \<Rightarrow> bool" where
  "hasWorkingText b = someIncluded b workingPatterns"

definition determineStatus :: "snapshot \<Rightarrow> task_status" where
  "determineStatus snap =
     (if hasActiveStopButton (buttons snap) \<or> spinnerPresent snap then Working
      else if hasStepsCompleted (body snap) \<or> hasFinishedMarker snap then Completed
      else if hasReviewedSources (body snap) \<and> \<not> hasWorkingText (body snap) then Completed
      else if hasWorkingText (body snap) then Working
      else Idle)"

subsection \<open>Steps\<close>

definition stepPatterns :: "regex list" where
  "stepPatterns =
     [lits ''Preparing to assist'' @ [Star NotNewline],
      lits ''Clicking'' @ [Star NotNewline],
      lits ''Typing:'' @ [Star NotNewline],
      lits ''Navigating'' @ [Star NotNewline],
      lits ''Reading'' @ [Star NotNewline],
      lits ''Searching'' @ [Star NotNewline],
      lits ''Found'' @ [Star NotNewline]]"

text \<open>
  The loop over the patterns pushes, for each pattern in turn, all of its matches in the
  body (trimmed and cut to 100 code units).
\<close>

fun pushSteps :: "jsstring \<Rightarrow> regex list \<Rightarrow> jsstring list \<Rightarrow> jsstring list" where
  "pushSteps b [] acc = acc"
| "pushSteps b (pattern # patterns) acc =
     (let matches = rxMatchAll False pattern b 0
      in pushSteps b patterns
           (if matches \<noteq> [] then acc @ map (\<lambda>s. substring (trim s) 0 100) matches else acc))"

definition extractSteps :: "jsstring \<Rightarrow> jsstring list" where
  "extractSteps b = pushSteps b stepPatterns []"

text \<open>
  \<open>[...new Set(xs)]\<close>: a set keeps its elements in insertion order, and adding an element
  it already has changes nothing. \<open>sliceLast n\<close> is \<open>slice(-n)\<close>.
\<close>

fun newSet :: "jsstring list \<Rightarrow> jsstring list \<Rightarrow> jsstring list" where
  "newSet acc [] = acc"
| "newSet acc (x # xs) = newSet (if x \<in> set acc then acc else acc @ [x]) xs"

definition sliceLast :: "nat \<Rightarrow> 'a list \<Rightarrow> 'a list" where
  "sliceLast n xs = drop (length xs - n) xs"

subsection \<open>Response\<close>

text \<open>Strategy 1: the last prose element with more than five code units that does not
  start with \<open>Related\<close>; the loop runs from the last element down.\<close>

fun lastProse :: "jsstring list \<Rightarrow> jsstring" where
  "lastProse [] = []"
| "lastProse (el # els) =
     (let text = trim el
      in if 5 < length text \<and> \<not> startsWith text (str ''Related'') then text else lastProse els)"

definition strategy1 :: "snapshot \<Rightarrow> jsstring" where
  "strategy1 snap = lastProse (rev (proseEls snap))"

text \<open>Strategy 2: the text after \<open>Reviewed N sources\<close> up to the nearest end marker.\<close>

definition endMarkers2 :: "jsstring list" where
  "endMarkers2 =
     [str ''Related'', str ''Ask a follow-up'', str ''Ask anything'', str ''Share'', str ''Copy'']"

fun endIndex2 :: "jsstring \<Rightarrow> int \<Rightarrow> jsstring list \<Rightarrow> int \<Rightarrow> int" where
  "endIndex2 b startIdx [] endIdx = endIdx"
| "endIndex2 b startIdx (marker # markers) endIdx =
     (let idx = indexOf b marker startIdx
      in endIndex2 b startIdx markers (if startIdx < idx \<and> idx < endIdx then idx else endIdx))"

definition strategy2 :: "jsstring \<Rightarrow> jsstring \<Rightarrow> jsstring" where
  "strategy2 b response0 =
     (case rxMatch False reviewedRx b of
        None \<Rightarrow> response0
      | Some m \<Rightarrow>
          (let startIdx = indexOf b m 0 + int (length m);
               endIdx = endIndex2 b startIdx endMarkers2 (int (length b))
           in trim (substring b startIdx endIdx)))"

text \<open>Strategy 3: the text after \<open>steps completed\<close> up to the nearest end marker.\<close>

definition endMarkers3 :: "jsstring list" where
  "endMarkers3 = [str ''Related'', str ''Ask a follow-up'', str ''Ask anything'', str ''Sources'']"

fun endIndex3 :: "jsstring \<Rightarrow> jsstring list \<Rightarrow> int \<Rightarrow> int" where
  "endIndex3 a [] endIdx = endIdx"
| "endIndex3 a (marker # markers) endIdx =
     (let idx = indexOf a marker 0
      in endIndex3 a markers (if 0 < idx \<and> idx < endIdx then idx else endIdx))"

definition strategy3 :: "jsstring \<Rightarrow> jsstring \<Rightarrow> jsstring" where
  "strategy3 b response0 =
     (let completionIdx = indexOf b (str ''steps completed'') 0
      in if - 1 < completionIdx
         then (let afterCompletion = substringFrom b (completionIdx + 15);
                   endIdx = endIndex3 afterCompletion endMarkers3 (int (length afterCompletion))
               in trim (substring afterCompletion 0 endIdx))
         else response0)"

definition extractResponse :: "snapshot \<Rightarrow> task_status \<Rightarrow> jsstring" where
  "extractResponse snap st =
     (if st = Completed
      then (let response1 = strategy1 snap;
                response2 = (if response1 = [] then strategy2 (body snap) response1 else response1);
                response3 = (if response2 = [] \<or> length response2 < 5
                             then strategy3 (body snap) response2 else response2)
            in response3)
      else [])"

subsection \<open>The script\<close>

definition agentStatusScript :: "snapshot \<Rightarrow> eval_result" where
  "agentStatusScript snap =
     (let st = determineStatus snap;
          allSteps = extractSteps (body snap);
          cur = (if 0 < length allSteps then last allSteps else []);
          resp = extractResponse snap st
      in \<lparr> status = st,
           steps = sliceLast 5 (newSet [] allSteps),
           currentStep = cur,
           response = substring resp 0 3000,
           hasStopButton = hasActiveStopButton (buttons snap) \<rparr>)"

section \<open>Example snapshots\<close>

definition stopButton :: button where
  "stopButton = \<lparr> hasRect = False, ariaLabel = Some (str ''Stop''), offsetParentNull = False, disabled = False \<rparr>"

definition snapStopSteps :: snapshot where
  "snapStopSteps = \<lparr> body = str ''3 steps completed'', buttons = [stopButton],
     spinnerPresent = False, proseEls = [] \<rparr>"

definition bodyReviewed :: jsstring where
  "bodyReviewed = str ''Reviewed 4 sources'' @ [10] @ str ''Answer text here'' @ [10] @ str ''Related''"

definition snapReviewed :: snapshot where
  "snapReviewed = \<lparr> body = bodyReviewed, buttons = [], spinnerPresent = False, proseEls = [] \<rparr>"

definition bodyCopy :: jsstring where
  "bodyCopy = str ''Reviewed 4 sources'' @ [10] @ str ''Copy the file to the server'' @ [10] @ str ''Related''"

definition snapProse :: snapshot where
  "snapProse = \<lparr> body = bodyCopy, buttons = [], spinnerPresent = False,
     proseEls = [str ''Copy the file to the server''] \<rparr>"



definition bodyShortAnswer :: jsstring where
  "bodyShortAnswer =
     str ''3 steps completed'' @ [10] @ str ''Reviewed 2 sources'' @ [10] @ str ''Yes'' @ [10] @ str ''Related''"

definition snapShortAnswer :: snapshot where
  "snapShortAnswer = \<lparr> body = bodyShortAnswer, buttons = [], spinnerPresent = False, proseEls = [] \<rparr>"

definition snapIdle :: snapshot where
  "snapIdle = \<lparr> body = str ''Ask anything'', buttons = [], spinnerPresent = False, proseEls = [] \<rparr>"



definition bodyCopyTwice :: jsstring where
  "bodyCopyTwice = str ''Reviewed 4 sourcesCopy this text Copy that Related''"

definition snapCopyTwice :: snapshot where
  "snapCopyTwice = \<lparr> body = bodyCopyTwice, buttons = [], spinnerPresent = False, proseEls = [] \<rparr>"

section \<open>The browser client and the clock\<close>

text \<open>
  The handlers of \<open>index.ts\<close> act on the browser through \<open>cometClient\<close> (whose source,
  \<open>cdp-client.ts\<close>, is outside the files at hand) and read the clock. Each such action is
  a \<open>call\<close>; the world records the calls made so far, in order. What a call answers is
  given by the environment as a function of the whole history up to and including the
  call, so that an environment stands for any behaviour of the browser and of the clock.
  A call either returns a value or throws.
\<close>

datatype exn = Error jsstring | Thrown jsstring

text \<open>The text of \<open>error instanceof Error ? error.message : error\<close> in a template.\<close>

fun exnText :: "exn \<Rightarrow> jsstring" where
  "exnText (Error m) = m"
| "exnText (Thrown s) = s"

datatype mode_label = OwnLabel jsstring | InheritedValue jsstring

datatype script = LocationHref | AgentStatusScript | CurrentModeScript
  | ClickModeScript mode_label | SelectModeScript jsstring

datatype call =
    StartComet nat
  | ListTargets
  | CloseTab jsstring
  | Connect jsstring
  | Navigate jsstring bool
  | NewTab jsstring
  | Evaluate script
  | SafeEvaluate script
  | ListTabsCategorized
  | Screenshot jsstring
  | SendPrompt jsstring
  | StopAgent
  | CurrentState
  | DateNow
  | SetTimeout nat
  | ConsoleError jsstring

record target =
  targetId :: jsstring
  targetType :: jsstring
  url :: jsstring

record tabs =
  main :: "target option"
  agentBrowsing :: "target option"

record click_result =
  success :: bool
  needsSelect :: bool
  error :: "jsstring option"

record env =
  onVoid :: "call list \<Rightarrow> exn option"
  onString :: "call list \<Rightarrow> exn + jsstring"
  onTargets :: "call list \<Rightarrow> exn + target list"
  onTarget :: "call list \<Rightarrow> exn + target"
  onUrl :: "call list \<Rightarrow> exn + jsstring option"
  onClick :: "call list \<Rightarrow> exn + click_result"
  onSnapshot :: "call list \<Rightarrow> exn + snapshot"
  onTabs :: "call list \<Rightarrow> exn + tabs"
  onBool :: "call list \<Rightarrow> exn + bool"
  onNow :: "call list \<Rightarrow> int"
  onState :: "call list \<Rightarrow> jsstring option"

record world =
  hist :: "call list"
  attached :: "jsstring option"

type_synonym 'a prog = "world \<Rightarrow> (exn + 'a) \<times> world"

definition perform :: "call \<Rightarrow> world \<Rightarrow> world" where
  "perform c w = w\<lparr>hist := hist w @ [c]\<rparr>"

definition callWith :: "(call list \<Rightarrow> exn + 'a) \<Rightarrow> call \<Rightarrow> 'a prog" where
  "callWith answer c w = (let w' = perform c w in (answer (hist w'), w'))"

definition callVoid :: "env \<Rightarrow> call \<Rightarrow> unit prog" where
  "callVoid E c w =
     (let w' = perform c w
      in (case onVoid E (hist w') of Some e \<Rightarrow> Inl e | None \<Rightarrow> Inr (), w'))"

text \<open>
  Modelled from the spec: \<open>cometClient.connect\<close> of the missing \<open>cdp-client.ts\<close>. The
  specification says that exactly one target is attached at a time and that attaching to
  a new target detaches the previous one: a successful \<open>connect\<close> makes its target the
  attached one. A \<open>connect\<close> that throws leaves the attachment as it was.
\<close>

definition connect :: "env \<Rightarrow> jsstring \<Rightarrow> unit prog" where
  "connect E i w =
     (let w' = perform (Connect i) w
      in (case onVoid E (hist w') of
            Some e \<Rightarrow> (Inl e, w')
          | None \<Rightarrow> (Inr (), w'\<lparr>attached := Some i\<rparr>)))"

definition dateNow :: "env \<Rightarrow> world \<Rightarrow> int \<times> world" where
  "dateNow E w = (let w' = perform DateNow w in (onNow E (hist w'), w'))"

text \<open>\<open>await new Promise(resolve => setTimeout(resolve, ms))\<close>: it never throws.\<close>

definition sleep :: "nat \<Rightarrow> world \<Rightarrow> world" where
  "sleep ms w = perform (SetTimeout ms) w"

definition bindP :: "'a prog \<Rightarrow> ('a \<Rightarrow> 'b prog) \<Rightarrow> 'b prog" where
  "bindP m f w = (case m w of (Inl e, w') \<Rightarrow> (Inl e, w') | (Inr x, w') \<Rightarrow> f x w')"

definition returnP :: "'a \<Rightarrow> 'a prog" where
  "returnP x w = (Inr x, w)"

definition throwP :: "exn \<Rightarrow> 'a prog" where
  "throwP e w = (Inl e, w)"

section \<open>Tool results and number formatting\<close>

datatype content_item = TextContent jsstring | ImageContent jsstring jsstring

text \<open>A result without the key \<open>isError\<close> has \<open>isError = False\<close>.\<close>

record tool_result =
  content :: "content_item list"
  isError :: bool

definition textResult :: "jsstring \<Rightarrow> tool_result" where
  "textResult t = \<lparr> content = [TextContent t], isError = False \<rparr>"

definition errorResult :: "jsstring \<Rightarrow> tool_result" where
  "errorResult t = \<lparr> content = [TextContent t], isError = True \<rparr>"

text \<open>An integer in a template string.\<close>

fun showNat :: "nat \<Rightarrow> jsstring" where
  "showNat n = (if n < 10 then [48 + n] else showNat (n div 10) @ [48 + n mod 10])"

definition showInt :: "int \<Rightarrow> jsstring" where
  "showInt i = (if i < 0 then 45 # showNat (nat (- i)) else showNat (nat i))"

text \<open>
  \<open>timeout/1000\<close> in a template string, for a whole number of milliseconds (below
  \<open>10\<^sup>1\<^sup>5\<close> in absolute value, where the decimal expansion with at most three decimals is
  the shortest text that reads back as the same number).
\<close>

definition showSeconds :: "int \<Rightarrow> jsstring" where
  "showSeconds t =
     (let a = nat \<bar>t\<bar>;
          r = a mod 1000;
          decimals = [48 + r div 100, 48 + (r div 10) mod 10, 48 + r mod 10];
          fraction = (if r = 0 then [] else 46 # rev (dropWhile (\<lambda>c. c = 48) (rev decimals)))
      in (if t < 0 then [45] else []) @ showNat (a div 1000) @ fraction)"

text \<open>\<open>Math.round(d / 1000)\<close> for an integer \<open>d\<close>: halves go up.\<close>

definition roundSeconds :: "int \<Rightarrow> int" where
  "roundSeconds d = (d + 500) div 1000"

section \<open>\<open>CometAI.getAgentStatus\<close>\<close>

record agent_status = eval_result +
  agentBrowsingUrl :: jsstring

text \<open>The object \<open>{ ...evalResult, agentBrowsingUrl }\<close>.\<close>

definition withBrowsingUrl :: "eval_result \<Rightarrow> jsstring \<Rightarrow> agent_status" where
  "withBrowsingUrl r u = eval_result.extend r (agent_status.fields u)"

text \<open>
  The method asks for the categorized tabs (a failure there is swallowed), evaluates the
  status script in the page and adds the URL of the agent's tab to the script's result.
  An evaluation that yields no value makes the callers throw at their first use of the
  status; it is modelled as a throw of the evaluation.
\<close>

definition getAgentStatus :: "env \<Rightarrow> agent_status prog" where
  "getAgentStatus E w =
     (let (r1, w1) = callWith (onTabs E) ListTabsCategorized w;
          browsingUrl = (case r1 of
                           Inl e \<Rightarrow> []
                         | Inr t \<Rightarrow> (case agentBrowsing t of Some a \<Rightarrow> url a | None \<Rightarrow> []));
          (r2, w2) = callWith (onSnapshot E) (SafeEvaluate AgentStatusScript) w1
      in (case r2 of
            Inl e \<Rightarrow> (Inl e, w2)
          | Inr snap \<Rightarrow>
              (Inr (withBrowsingUrl (agentStatusScript snap) browsingUrl), w2)))"

section \<open>The \<open>comet_ask\<close> handler\<close>

text \<open>
  The arguments of a tool call, each of them optional. The timeout is a number of
  milliseconds; it is taken to be a whole number, as the clock readings are.
\<close>

record tool_args =
  prompt :: "jsstring option"
  timeout :: "int option"
  newChat :: "bool option"
  agentic :: "bool option"
  agent_tab :: "bool option"
  mode :: "jsstring option"

record poll_state =
  progressLog :: "jsstring list"
  seenSteps :: "jsstring list"
  lastUrl :: jsstring
  sawWorkingState :: bool

text \<open>The prefixes of the log messages, as UTF-16 code units.\<close>

definition rocket :: jsstring where "rocket = [55357, 56960]"
definition clipboard :: jsstring where "clipboard = [55357, 56523]"
definition globe :: jsstring where "globe = [55356, 57104]"
definition gear :: jsstring where "gear = [9881, 65039]"
definition hourglass :: jsstring where "hourglass = [9203]"
definition checkMark :: jsstring where "checkMark = [9989]"
definition alarmClock :: jsstring where "alarmClock = [9200]"

definition logLine :: "int \<Rightarrow> jsstring \<Rightarrow> jsstring" where
  "logLine elapsed msg = str ''[comet '' @ showInt elapsed @ str ''s] '' @ msg"

text \<open>The closure \<open>log\<close>: it reads the clock, writes the line to stderr and pushes it.\<close>

definition logMsg :: "env \<Rightarrow> int \<Rightarrow> jsstring \<Rightarrow> poll_state \<times> world \<Rightarrow> poll_state \<times> world" where
  "logMsg E startTime msg sw =
     (let (st, w) = sw;
          (now, w1) = dateNow E w;
          line = logLine (roundSeconds (now - startTime)) msg;
          w2 = perform (ConsoleError line) w1
      in (st\<lparr>progressLog := progressLog st @ [line]\<rparr>, w2))"

text \<open>The loop over \<open>status.steps\<close>; the set \<open>seenSteps\<close> is kept in insertion order.\<close>

fun logNewSteps :: "env \<Rightarrow> int \<Rightarrow> jsstring list \<Rightarrow> poll_state \<times> world \<Rightarrow> poll_state \<times> world" where
  "logNewSteps E startTime [] sw = sw"
| "logNewSteps E startTime (step # rest) sw =
     logNewSteps E startTime rest
       (if step \<notin> set (seenSteps (fst sw))
        then logMsg E startTime (clipboard @ str '' '' @ step)
               ((fst sw)\<lparr>seenSteps := seenSteps (fst sw) @ [step]\<rparr>, snd sw)
        else sw)"

definition logUrlChange :: "env \<Rightarrow> int \<Rightarrow> agent_status \<Rightarrow> poll_state \<times> world \<Rightarrow> poll_state \<times> world" where
  "logUrlChange E startTime s sw =
     (if agentBrowsingUrl s \<noteq> [] \<and> agentBrowsingUrl s \<noteq> lastUrl (fst sw)
      then logMsg E startTime (globe @ str '' '' @ agentBrowsingUrl s)
             ((fst sw)\<lparr>lastUrl := agentBrowsingUrl s\<rparr>, snd sw)
      else sw)"

definition trackWorking :: "env \<Rightarrow> int \<Rightarrow> agent_status \<Rightarrow> poll_state \<times> world \<Rightarrow> poll_state \<times> world" where
  "trackWorking E startTime s sw =
     (if status s = Working
      then (let sw1 = (if \<not> sawWorkingState (fst sw)
                       then logMsg E startTime (gear @ str '' Task processing...'')
                              ((fst sw)\<lparr>sawWorkingState := True\<rparr>, snd sw)
                       else sw)
            in if currentStep s \<noteq> [] \<and>
                  \<not> (progressLog (fst sw1) \<noteq> [] \<and>
                     includesStr (last (progressLog (fst sw1))) (currentStep s))
               then logMsg E startTime (hourglass @ str '' '' @ currentStep s) sw1
               else sw1)
      else sw)"

text \<open>Lines 194 to 217 of the loop body: the three logging blocks.\<close>

definition pollLogging :: "env \<Rightarrow> int \<Rightarrow> agent_status \<Rightarrow> poll_state \<times> world \<Rightarrow> poll_state \<times> world" where
  "pollLogging E startTime s sw =
     trackWorking E startTime s (logUrlChange E startTime s (logNewSteps E startTime (steps s) sw))"

definition completedOutput :: "agent_status \<Rightarrow> tool_result" where
  "completedOutput s =
     textResult (if response s \<noteq> [] then response s
                 else str ''Task completed (no response text extracted)'')"

text \<open>
  Lines 219 to 238: the two tests on a \<open>completed\<close> status. The result is \<open>Some\<close> of the
  handler's return value, or \<open>None\<close> when the loop goes on.
\<close>

definition pollDecide ::
  "env \<Rightarrow> int \<Rightarrow> agent_status \<Rightarrow> poll_state \<times> world \<Rightarrow> tool_result option \<times> poll_state \<times> world" where
  "pollDecide E startTime s sw =
     (if status s = Completed \<and> sawWorkingState (fst sw)
      then (let (st1, w1) = logMsg E startTime (checkMark @ str '' Task completed'') sw
            in (Some (completedOutput s), st1, w1))
      else if status s = Completed \<and> \<not> sawWorkingState (fst sw)
      then (let (now, w1) = dateNow E (snd sw);
                elapsed = now - startTime
            in if 10000 < elapsed
               then (let (st2, w2) =
                           logMsg E startTime (checkMark @ str '' Task completed (quick response)'')
                             (fst sw, w1)
                     in (Some (completedOutput s), st2, w2))
               else (None, fst sw, w1))
      else (None, fst sw, snd sw))"

definition pollBody ::
  "env \<Rightarrow> int \<Rightarrow> agent_status \<Rightarrow> poll_state \<times> world \<Rightarrow> tool_result option \<times> poll_state \<times> world" where
  "pollBody E startTime s sw = pollDecide E startTime s (pollLogging E startTime s sw)"

text \<open>
  The \<open>while\<close> loop. The clock may stand still, so the loop need not end: it is given
  fuel, one unit for each test of its condition, and \<open>None\<close> is the run that has not
  ended when the fuel is used up. The loop ends by a \<open>return\<close> inside its body, by an
  exception of \<open>getAgentStatus\<close>, or when its condition fails. The argument \<open>obs\<close> is not
  a variable of the program: it records the statuses that the polls of the run have
  returned, in order.
\<close>

datatype loop_exit = Returned tool_result | Threw exn | DeadlineReached

fun pollLoop ::
  "env \<Rightarrow> int \<Rightarrow> int \<Rightarrow> nat \<Rightarrow> poll_state \<Rightarrow> agent_status list \<Rightarrow> world \<Rightarrow>
   (loop_exit \<times> poll_state \<times> agent_status list \<times> world) option" where
  "pollLoop E startTime tmo 0 st obs w = None"
| "pollLoop E startTime tmo (Suc fuel) st obs w =
     (let (now, w1) = dateNow E w
      in if now - startTime < tmo
         then (let w2 = sleep 2000 w1;
                   (r, w3) = getAgentStatus E w2
               in (case r of
                     Inl e \<Rightarrow> Some (Threw e, st, obs, w3)
                   | Inr s \<Rightarrow>
                       (case pollBody E startTime s (st, w3) of
                          (Some res, st', w4) \<Rightarrow> Some (Returned res, st', obs @ [s], w4)
                        | (None, st', w4) \<Rightarrow> pollLoop E startTime tmo fuel st' (obs @ [s]) w4)))
         else Some (DeadlineReached, st, obs, w1))"

text \<open>
  The handler up to the loop: the validation of the prompt, the navigation, the sending
  of the prompt (\<open>cometAI.sendPrompt\<close>, taken as one call that returns or throws), the
  start time and the first log line. It ends early with a result or an exception, or
  hands the start time, the timeout and the first state to the loop.
\<close>

datatype ask_start = Early tool_result | Failed exn | Ready int int poll_state

definition effectiveTimeout :: "tool_args \<Rightarrow> int" where
  "effectiveTimeout args = (case timeout args of None \<Rightarrow> 300000 | Some t \<Rightarrow> if t = 0 then 300000 else t)"

definition perplexityHome :: jsstring where
  "perplexityHome = str ''https://www.perplexity.ai/''"

definition askSend :: "env \<Rightarrow> tool_args \<Rightarrow> jsstring \<Rightarrow> world \<Rightarrow> ask_start \<times> world" where
  "askSend E args prompt0 w =
     (let prompt1 = (if agentic args = Some True
                     then str ''Take control of my browser and '' @ prompt0
                     else prompt0);
          (r1, w1) = callWith (onUrl E) (Evaluate LocationHref) w
      in (case r1 of
            Inl e \<Rightarrow> (Failed e, w1)
          | Inr currentUrl \<Rightarrow>
              (let isOnPerplexity =
                     (case currentUrl of None \<Rightarrow> False | Some u \<Rightarrow> includesStr u (str ''perplexity.ai''));
                   (r2, w2) = (if newChat args = Some True \<or> \<not> isOnPerplexity
                               then (case callVoid E (Navigate perplexityHome True) w1 of
                                       (Inl e, w') \<Rightarrow> (Inl e, w')
                                     | (Inr u, w') \<Rightarrow> (Inr u, sleep 2000 w'))
                               else (Inr (), w1))
               in (case r2 of
                     Inl e \<Rightarrow> (Failed e, w2)
                   | Inr u \<Rightarrow>
                       (case callVoid E (SendPrompt prompt1) w2 of
                          (Inl e, w3) \<Rightarrow> (Failed e, w3)
                        | (Inr u, w3) \<Rightarrow>
                            (let (startTime, w4) = dateNow E w3;
                                 st0 = \<lparr> progressLog = [], seenSteps = [], lastUrl = [],
                                         sawWorkingState = False \<rparr>;
                                 (st1, w5) = logMsg E startTime (rocket @ str '' Task started'') (st0, w4)
                             in (Ready startTime (effectiveTimeout args) st1, w5)))))))"

text \<open>The test \<open>!prompt || prompt.trim().length === 0\<close> comes before anything else.\<close>

definition askStart :: "env \<Rightarrow> tool_args \<Rightarrow> world \<Rightarrow> ask_start \<times> world" where
  "askStart E args w =
     (case prompt args of
        None \<Rightarrow> (Early (textResult (str ''Error: prompt cannot be empty'')), w)
      | Some prompt0 \<Rightarrow>
          if prompt0 = [] \<or> length (trim prompt0) = 0
          then (Early (textResult (str ''Error: prompt cannot be empty'')), w)
          else askSend E args prompt0 w)"

definition timeoutText :: "int \<Rightarrow> jsstring list \<Rightarrow> jsstring" where
  "timeoutText tmo lg =
     str ''Timeout after '' @ showSeconds tmo @ str ''s.'' @ [10, 10] @ str ''Progress:'' @ [10] @
     join [10] lg @ [10, 10] @ str ''Use comet_poll to check if still working.''"

definition cometAsk :: "env \<Rightarrow> nat \<Rightarrow> tool_args \<Rightarrow> world \<Rightarrow> ((exn + tool_result) \<times> world) option" where
  "cometAsk E fuel args w =
     (case askStart E args w of
        (Early res, w1) \<Rightarrow> Some (Inr res, w1)
      | (Failed e, w1) \<Rightarrow> Some (Inl e, w1)
      | (Ready startTime tmo st1, w1) \<Rightarrow>
          (case pollLoop E startTime tmo fuel st1 [] w1 of
             None \<Rightarrow> None
           | Some (Returned res, st2, obs, w2) \<Rightarrow> Some (Inr res, w2)
           | Some (Threw e, st2, obs, w2) \<Rightarrow> Some (Inl e, w2)
           | Some (DeadlineReached, st2, obs, w2) \<Rightarrow>
               (let (st3, w3) = logMsg E startTime (alarmClock @ str '' Timeout'') (st2, w2)
                in Some (Inr (textResult (timeoutText tmo (progressLog st3))), w3))))"

section \<open>The other handlers and the dispatcher\<close>

text \<open>\<open>comet_screenshot\<close>.\<close>

definition cometScreenshot :: "env \<Rightarrow> tool_args \<Rightarrow> tool_result prog" where
  "cometScreenshot E args =
     (if agent_tab args = Some True
      then bindP (callWith (onTabs E) ListTabsCategorized) (\<lambda>t.
             case agentBrowsing t of
               Some agentTab \<Rightarrow>
                 bindP (connect E (targetId agentTab)) (\<lambda>u.
                 bindP (callWith (onString E) (Screenshot (str ''png''))) (\<lambda>shot.
                 bindP (case main t of
                          Some mainTab \<Rightarrow> connect E (targetId mainTab)
                        | None \<Rightarrow> returnP ()) (\<lambda>u.
                 returnP \<lparr> content = [TextContent (str ''Agent browsing: '' @ url agentTab),
                                      ImageContent shot (str ''image/png'')],
                           isError = False \<rparr>)))
             | None \<Rightarrow> returnP (textResult (str ''No agent browsing tab found'')))
      else bindP (callWith (onString E) (Screenshot (str ''png''))) (\<lambda>shot.
             returnP \<lparr> content = [ImageContent shot (str ''image/png'')], isError = False \<rparr>))"

text \<open>\<open>comet_connect\<close>. A failure to close a tab is ignored.\<close>

fun closeTabs :: "env \<Rightarrow> target list \<Rightarrow> world \<Rightarrow> world" where
  "closeTabs E [] w = w"
| "closeTabs E (t # ts) w = closeTabs E ts (snd (callVoid E (CloseTab (targetId t)) w))"

definition isPage :: "target \<Rightarrow> bool" where
  "isPage t = (targetType t = str ''page'')"

definition cometConnect :: "env \<Rightarrow> tool_result prog" where
  "cometConnect E =
     bindP (callWith (onString E) (StartComet 9222)) (\<lambda>startResult.
     bindP (callWith (onTargets E) ListTargets) (\<lambda>targets.
       (let pageTabs = filter isPage targets
        in bindP (\<lambda>w. (Inr (), if 1 < length pageTabs then closeTabs E (drop 1 pageTabs) w else w)) (\<lambda>u.
           bindP (callWith (onTargets E) ListTargets) (\<lambda>freshTargets.
             case find isPage freshTargets of
               Some anyPage \<Rightarrow>
                 bindP (connect E (targetId anyPage)) (\<lambda>u.
                 bindP (callVoid E (Navigate perplexityHome True)) (\<lambda>u.
                 bindP (\<lambda>w. (Inr (), sleep 1500 w)) (\<lambda>u.
                 returnP (textResult (startResult @ [10] @ str ''Connected to Perplexity (cleaned '' @
                            showInt (int (length pageTabs) - 1) @ str '' old tabs)'')))))
             | None \<Rightarrow>
                 bindP (callWith (onTarget E) (NewTab perplexityHome)) (\<lambda>newTab.
                 bindP (\<lambda>w. (Inr (), sleep 2000 w)) (\<lambda>u.
                 bindP (connect E (targetId newTab)) (\<lambda>u.
                 returnP (textResult (startResult @ [10] @
                            str ''Created new tab and navigated to Perplexity''))))))))))"

text \<open>\<open>comet_poll\<close>.\<close>

fun statusUpper :: "task_status \<Rightarrow> jsstring" where
  "statusUpper Idle = str ''IDLE''"
| "statusUpper Working = str ''WORKING''"
| "statusUpper Completed = str ''COMPLETED''"

definition pollOutput :: "agent_status \<Rightarrow> jsstring" where
  "pollOutput s =
     (let output1 = str ''Status: '' @ statusUpper (status s) @ [10];
          output2 = (if agentBrowsingUrl s \<noteq> []
                     then output1 @ str ''Browsing: '' @ agentBrowsingUrl s @ [10] else output1);
          output3 = (if 0 < length (steps s)
                     then output2 @ [10] @ str ''Recent steps:'' @ [10] @
                          join [10] (map (\<lambda>t. str ''  '' @ [8226] @ str '' '' @ t) (steps s)) @ [10]
                     else output2);
          output4 = (if currentStep s \<noteq> [] \<and> status s = Working
                     then output3 @ [10] @ str ''Current: '' @ currentStep s @ [10] else output3)
      in if status s = Completed \<and> response s \<noteq> []
         then output4 @ [10] @ str ''--- Response ---'' @ [10] @ response s @ [10]
         else if status s = Working \<and> hasStopButton s
         then output4 @ [10] @ str ''[Agent is working - use comet_stop to interrupt if needed]''
         else output4)"

definition cometPoll :: "env \<Rightarrow> tool_result prog" where
  "cometPoll E = bindP (getAgentStatus E) (\<lambda>s. returnP (textResult (pollOutput s)))"

text \<open>\<open>comet_stop\<close>; \<open>cometAI.stopAgent\<close> is taken as one call.\<close>

definition cometStop :: "env \<Rightarrow> tool_result prog" where
  "cometStop E =
     bindP (callWith (onBool E) StopAgent) (\<lambda>stopped.
       returnP (textResult (if stopped then str ''Agent stopped'' else str ''No active agent to stop'')))"

text \<open>
  \<open>comet_mode\<close>. The lookup \<open>modeMap[mode]\<close> is modelled for the modes that are not names
  of properties every object inherits.
\<close>

definition modeDescriptions :: "(jsstring \<times> jsstring) list" where
  "modeDescriptions =
     [(str ''search'', str ''Basic web search''),
      (str ''research'', str ''Deep research with comprehensive analysis''),
      (str ''labs'', str ''Analytics, visualizations, and coding''),
      (str ''learn'', str ''Educational content and explanations'')]"

definition modeMap :: "(jsstring \<times> jsstring) list" where
  "modeMap =
     [(str ''search'', str ''Search''), (str ''research'', str ''Research''),
      (str ''labs'', str ''Labs''), (str ''learn'', str ''Learn'')]"

text \<open>
  The lookup \<open>modeMap[mode]\<close> on an object literal: an own key gives its label, and a name
  that the object inherits from \<open>Object.prototype\<close> gives the inherited value (a function,
  or the prototype itself for \<open>__proto__\<close>), which is not falsy; any other name gives
  \<open>undefined\<close>. The script takes the text that the template string makes of the value.
\<close>

definition objectPrototypeNames :: "jsstring list" where
  "objectPrototypeNames =
     [str ''constructor'', str ''__defineGetter__'', str ''__defineSetter__'',
      str ''hasOwnProperty'', str ''__lookupGetter__'', str ''__lookupSetter__'',
      str ''isPrototypeOf'', str ''propertyIsEnumerable'', str ''toString'', str ''valueOf'',
      str ''__proto__'', str ''toLocaleString'']"

definition lookupMode :: "jsstring \<Rightarrow> mode_label option" where
  "lookupMode mode0 =
     (case map_of modeMap mode0 of
        Some label \<Rightarrow> Some (OwnLabel label)
      | None \<Rightarrow> if mode0 \<in> set objectPrototypeNames then Some (InheritedValue mode0) else None)"

fun modeLines :: "jsstring \<Rightarrow> (jsstring \<times> jsstring) list \<Rightarrow> jsstring" where
  "modeLines currentMode [] = []"
| "modeLines currentMode ((m, desc) # rest) =
     (if m = currentMode then [8594] else str '' '') @ str '' '' @ m @ str '': '' @ desc @ [10] @
     modeLines currentMode rest"

definition showError :: "jsstring option \<Rightarrow> jsstring" where
  "showError e = (case e of None \<Rightarrow> str ''undefined'' | Some t \<Rightarrow> t)"

definition currentStateUrl :: "env \<Rightarrow> world \<Rightarrow> jsstring option \<times> world" where
  "currentStateUrl E w = (let w' = perform CurrentState w in (onState E (hist w'), w'))"

definition switchMode :: "env \<Rightarrow> jsstring \<Rightarrow> mode_label \<Rightarrow> tool_result prog" where
  "switchMode E mode0 label =
     bindP (\<lambda>w. (let (stateUrl, w1) = currentStateUrl E w
                  in if (case stateUrl of None \<Rightarrow> False | Some u \<Rightarrow> includesStr u (str ''perplexity.ai''))
                     then (Inr (), w1)
                     else callVoid E (Navigate perplexityHome True) w1)) (\<lambda>u.
     bindP (callWith (onClick E) (Evaluate (ClickModeScript label))) (\<lambda>clickResult.
       if success clickResult \<and> needsSelect clickResult
       then bindP (\<lambda>w. (Inr (), sleep 300 w)) (\<lambda>u.
            bindP (callWith (onClick E) (Evaluate (SelectModeScript mode0))) (\<lambda>selectRes.
              if success selectRes
              then returnP (textResult (str ''Switched to '' @ mode0 @ str '' mode''))
              else returnP (errorResult (str ''Failed: '' @ showError (error selectRes)))))
       else if success clickResult
       then returnP (textResult (str ''Switched to '' @ mode0 @ str '' mode''))
       else returnP (errorResult (str ''Failed to switch mode: '' @ showError (error clickResult)))))"

definition cometMode :: "env \<Rightarrow> tool_args \<Rightarrow> tool_result prog" where
  "cometMode E args =
     (case mode args of
        None \<Rightarrow>
          bindP (callWith (onString E) (Evaluate CurrentModeScript)) (\<lambda>currentMode.
            returnP (textResult (str ''Current mode: '' @ currentMode @ [10, 10] @
                       str ''Available modes:'' @ [10] @ modeLines currentMode modeDescriptions)))
      | Some mode0 \<Rightarrow>
          if mode0 = []
          then bindP (callWith (onString E) (Evaluate CurrentModeScript)) (\<lambda>currentMode.
                 returnP (textResult (str ''Current mode: '' @ currentMode @ [10, 10] @
                            str ''Available modes:'' @ [10] @ modeLines currentMode modeDescriptions)))
          else (case lookupMode mode0 of
                  None \<Rightarrow>
                    returnP (errorResult (str ''Invalid mode: '' @ mode0 @
                               str ''. Use: search, research, labs, learn''))
                | Some label \<Rightarrow> switchMode E mode0 label))"

text \<open>
  The handler of \<open>CallToolRequestSchema\<close>: the \<open>switch\<close> on the tool name, inside the
  \<open>try\<close>, and the \<open>catch\<close> around it. \<open>None\<close> is the run of \<open>comet_ask\<close> that has not ended
  when the fuel is used up.
\<close>

definition handleTool ::
  "env \<Rightarrow> nat \<Rightarrow> jsstring \<Rightarrow> tool_args \<Rightarrow> world \<Rightarrow> ((exn + tool_result) \<times> world) option" where
  "handleTool E fuel name args w =
     (if name = str ''comet_connect'' then Some (cometConnect E w)
      else if name = str ''comet_ask'' then cometAsk E fuel args w
      else if name = str ''comet_poll'' then Some (cometPoll E w)
      else if name = str ''comet_stop'' then Some (cometStop E w)
      else if name = str ''comet_screenshot'' then Some (cometScreenshot E args w)
      else if name = str ''comet_mode'' then Some (cometMode E args w)
      else Some (throwP (Error (str ''Unknown tool: '' @ name)) w))"

definition callTool ::
  "env \<Rightarrow> nat \<Rightarrow> jsstring \<Rightarrow> tool_args \<Rightarrow> world \<Rightarrow> (tool_result \<times> world) option" where
  "callTool E fuel name args w =
     (case handleTool E fuel name args w of
        None \<Rightarrow> None
      | Some (Inl e, w') \<Rightarrow> Some (errorResult (str ''Error: '' @ exnText e), w')
      | Some (Inr res, w') \<Rightarrow> Some (res, w'))"

section \<open>Notions used in the claims about the polling loop\<close>

text \<open>
  The clock reading of line 231, read back from the history of a run that has ended on
  line 236: after that reading the handler only logs one line, which is one more reading
  and one write to stderr.
\<close>

definition graceReading :: "env \<Rightarrow> world \<Rightarrow> int" where
  "graceReading E w = onNow E (butlast (butlast (hist w)))"

text \<open>
  The message of a log line, which follows \<open>[comet\<close>, the seconds and \<open>s]\<close>; and the number
  of lines of a log that are the step entry of a step text.
\<close>

definition lineMsg :: "jsstring \<Rightarrow> jsstring" where
  "lineMsg l = drop 3 (dropWhile (\<lambda>c. c \<noteq> 115) (drop 7 l))"

definition stepEntries :: "jsstring \<Rightarrow> jsstring list \<Rightarrow> nat" where
  "stepEntries step lg = length (filter (\<lambda>l. lineMsg l = clipboard @ str '' '' @ step) lg)"

text \<open>
  The invariant of the step log: a step text has one step entry in the log when it is in
  \<open>seenSteps\<close>, and none when it is not.
\<close>

definition stepLogInv :: "poll_state \<Rightarrow> bool" where
  "stepLogInv st =
     (\<forall>step. stepEntries step (progressLog st) = (if step \<in> set (seenSteps st) then 1 else 0))"

text \<open>The string \<open>p\<close> occurs in \<open>s\<close> at index \<open>j\<close>.\<close>

definition occursAt :: "jsstring \<Rightarrow> jsstring \<Rightarrow> nat \<Rightarrow> bool" where
  "occursAt p s j = (j \<le> length s \<and> startsWith (drop j s) p)"

text \<open>
  The index \<open>e\<close> at which the text of strategy 2 ends, when it starts at index \<open>q\<close>: the
  end of the body, or an index after \<open>q\<close> that is the first one from \<open>q\<close> on at which some
  end marker occurs; and an end marker that occurs before \<open>e\<close>, from \<open>q\<close> on, occurs at
  \<open>q\<close> itself (the loop passes over such a marker, with all its occurrences).
\<close>

definition responseEnd2 :: "jsstring \<Rightarrow> nat \<Rightarrow> nat \<Rightarrow> bool" where
  "responseEnd2 b q e \<longleftrightarrow>
     q \<le> e \<and> e \<le> length b \<and>
     (e = length b \<or>
      (\<exists>mk \<in> set endMarkers2. q < e \<and> occursAt mk b e \<and> (\<forall>j \<in> {q..<e}. \<not> occursAt mk b j))) \<and>
     (\<forall>mk \<in> set endMarkers2. \<forall>j \<in> {q..<e}. occursAt mk b j \<longrightarrow> occursAt mk b q)"

text \<open>
  The number of lines of a log that include a text (the test of line 214). A line is
  stale after the line \<open>prev\<close> when it is a current-step entry, hourglass and step text,
  and \<open>prev\<close> includes that text; a log has no stale entry when none of its lines is
  stale after the line before it.
\<close>

definition textEntries :: "jsstring \<Rightarrow> jsstring list \<Rightarrow> nat" where
  "textEntries step lg = length (filter (\<lambda>l. includesStr l step) lg)"

definition staleEntry :: "jsstring \<Rightarrow> jsstring \<Rightarrow> bool" where
  "staleEntry prev l \<longleftrightarrow>
     take 2 (lineMsg l) = hourglass @ str '' '' \<and> includesStr prev (drop 2 (lineMsg l))"

fun noStaleEntry :: "jsstring list \<Rightarrow> bool" where
  "noStaleEntry [] = True"
| "noStaleEntry [l] = True"
| "noStaleEntry (prev # l # ls) = (\<not> staleEntry prev l \<and> noStaleEntry (l # ls))"

section \<open>Example environments\<close>

definition world0 :: world where
  "world0 = \<lparr> hist = [], attached = None \<rparr>"

definition mainTarget :: target where
  "mainTarget = \<lparr> targetId = str ''MAIN'', targetType = str ''page'',
     url = str ''https://www.perplexity.ai/'' \<rparr>"

definition agentTarget :: target where
  "agentTarget = \<lparr> targetId = str ''AGENT'', targetType = str ''page'',
     url = str ''https://example.com/'' \<rparr>"

text \<open>
  An environment in which every call succeeds, no agent tab exists, the page shows the
  given snapshot and each call advances the clock by the given number of milliseconds.
\<close>

definition envWith :: "snapshot \<Rightarrow> int \<Rightarrow> env" where
  "envWith snap tick =
     \<lparr> onVoid = (\<lambda>h. None),
       onString = (\<lambda>h. Inr (str ''ok'')),
       onTargets = (\<lambda>h. Inr [mainTarget]),
       onTarget = (\<lambda>h. Inr mainTarget),
       onUrl = (\<lambda>h. Inr (Some (str ''https://www.perplexity.ai/''))),
       onClick = (\<lambda>h. Inr \<lparr> success = True, needsSelect = False, error = None \<rparr>),
       onSnapshot = (\<lambda>h. Inr snap),
       onTabs = (\<lambda>h. Inr \<lparr> main = Some mainTarget, agentBrowsing = None \<rparr>),
       onBool = (\<lambda>h. Inr False),
       onNow = (\<lambda>h. tick * int (length h)),
       onState = (\<lambda>h. None) \<rparr>"

definition snapSearching :: snapshot where
  "snapSearching = \<lparr> body = str ''Searching foo'', buttons = [], spinnerPresent = False, proseEls = [] \<rparr>"

text \<open>The same, with an agent tab; and with a screenshot that fails.\<close>

definition envAgentTab :: env where
  "envAgentTab = (envWith snapIdle 1000)
     \<lparr> onTabs := (\<lambda>h. Inr \<lparr> main = Some mainTarget, agentBrowsing = Some agentTarget \<rparr>) \<rparr>"

definition envShotFails :: env where
  "envShotFails = envAgentTab \<lparr> onString := (\<lambda>h. Inl (Error (str ''capture failed''))) \<rparr>"

definition noArgs :: tool_args where
  "noArgs = \<lparr> prompt = None, timeout = None, newChat = None, agentic = None,
     agent_tab = None, mode = None \<rparr>"

definition emptyState :: poll_state where
  "emptyState = \<lparr> progressLog = [], seenSteps = [], lastUrl = [], sawWorkingState = False \<rparr>"

definition argsAgentTab :: tool_args where
  "argsAgentTab = noArgs \<lparr> agent_tab := Some True \<rparr>"

definition worldOnMain :: world where
  "worldOnMain = \<lparr> hist = [], attached = Some (str ''MAIN'') \<rparr>"

definition argsHello :: tool_args where
  "argsHello = noArgs \<lparr> prompt := Some (str ''hello''), timeout := Some 5000 \<rparr>"


definition statusReviewed :: agent_status where
  "statusReviewed = withBrowsingUrl (agentStatusScript snapReviewed) []"

text \<open>
  An environment in which the page shows \<open>Searching foo\<close> and the agent's tab is on one
  URL for the first ten calls and on another one afterwards; the statuses polled there;
  and the log of a run of two polls there.
\<close>

definition urlA :: jsstring where "urlA = str ''https://a.example/''"
definition urlB :: jsstring where "urlB = str ''https://b.example/''"

definition envBrowsing :: env where
  "envBrowsing = (envWith snapSearching 1000)
     \<lparr> onTabs := (\<lambda>h. Inr \<lparr> main = Some mainTarget,
          agentBrowsing = Some (agentTarget \<lparr> url := (if length h \<le> 10 then urlA else urlB) \<rparr>) \<rparr>) \<rparr>"

definition statusBrowsing :: "jsstring \<Rightarrow> agent_status" where
  "statusBrowsing u = withBrowsingUrl (agentStatusScript snapSearching) u"

definition browsingLog :: "jsstring list" where
  "browsingLog =
     [logLine 5 (clipboard @ str '' '' @ str ''Searching foo''),
      logLine 7 (globe @ str '' '' @ urlA),
      logLine 9 (gear @ str '' Task processing...''),
      logLine 11 (hourglass @ str '' '' @ str ''Searching foo''),
      logLine 17 (globe @ str '' '' @ urlB),
      logLine 19 (hourglass @ str '' '' @ str ''Searching foo'')]"

section \<open>Facts about the status script\<close>

lemma substring_zero: "substring s 0 (int n) = take n s"
  by (simp add: substring_def Let_def min_def)


lemma newSet_set: "set (newSet acc xs) = set acc \<union> set xs"
  by (induction xs arbitrary: acc) auto

lemma newSet_distinct: "distinct acc \<Longrightarrow> distinct (newSet acc xs)"
  by (induction xs arbitrary: acc) auto



lemma lastProse_long: "lastProse els = [] \<or> 5 < length (lastProse els)"
  by (induction els) (simp_all add: Let_def)

lemma indexOfAux_range: "indexOfAux p s i = - 1 \<or> int i \<le> indexOfAux p s i"
proof (induction s arbitrary: i)
  case Nil
  show ?case by simp
next
  case (Cons c cs)
  show ?case using Cons.IH [of "Suc i"] by auto
qed

lemma indexOf_ge: "- 1 \<le> indexOf s p pos"
  using indexOfAux_range [of p "drop (min (nat pos) (length s)) s" "min (nat pos) (length s)"]
  by (auto simp: indexOf_def Let_def)

lemma strategy3_fallback:
  "strategy3 b r0 = (if includesStr b (str ''steps completed'') then strategy3 b [] else r0)"
  using indexOf_ge [of b "str ''steps completed''" 0]
  by (auto simp: strategy3_def includesStr_def Let_def)

lemma agentStatusScript_status: "status (agentStatusScript snap) = determineStatus snap"
  by (simp add: agentStatusScript_def Let_def)

lemma agentStatusScript_steps:
  "steps (agentStatusScript snap) = sliceLast 5 (newSet [] (extractSteps (body snap)))"
  by (simp add: agentStatusScript_def Let_def)

lemma agentStatusScript_currentStep:
  "currentStep (agentStatusScript snap) =
     (if extractSteps (body snap) = [] then [] else last (extractSteps (body snap)))"
  by (simp add: agentStatusScript_def Let_def)

lemma agentStatusScript_response:
  "response (agentStatusScript snap) =
    (if status (agentStatusScript snap) = Completed
     then take 3000
       (if strategy1 snap \<noteq> [] then strategy1 snap
        else if 5 \<le> length (strategy2 (body snap) []) then strategy2 (body snap) []
        else if includesStr (body snap) (str ''steps completed'') then strategy3 (body snap) []
        else strategy2 (body snap) [])
     else [])"
proof -
  have s: "\<And>t. substring t 0 3000 = take 3000 t"
    using substring_zero [of _ 3000] by simp
  have l: "strategy1 snap = [] \<or> 5 < length (strategy1 snap)"
    unfolding strategy1_def by (rule lastProse_long)
  have r: "response (agentStatusScript snap) = take 3000 (extractResponse snap (determineStatus snap))"
    by (simp add: agentStatusScript_def Let_def s)
  have t: "status (agentStatusScript snap) = determineStatus snap"
    by (simp add: agentStatusScript_def Let_def)
  show ?thesis
  proof (cases "determineStatus snap = Completed")
    case False
    then show ?thesis by (simp add: r t extractResponse_def)
  next
    case True
    show ?thesis
    proof (cases "strategy1 snap = []")
      case False
      with l have "5 < length (strategy1 snap)" by simp
      with False True show ?thesis by (simp add: r t extractResponse_def Let_def)
    next
      case e: True
      show ?thesis
      proof (cases "5 \<le> length (strategy2 (body snap) [])")
        case True
        with e \<open>determineStatus snap = Completed\<close> show ?thesis
          by (auto simp: r t extractResponse_def Let_def)
      next
        case False
        with e \<open>determineStatus snap = Completed\<close> show ?thesis
          using strategy3_fallback [of "body snap" "strategy2 (body snap) []"]
          by (auto simp: r t extractResponse_def Let_def)
      qed
    qed
  qed
qed

lemma withBrowsingUrl_fields [simp]:
  "status (withBrowsingUrl r u) = status r"
  "steps (withBrowsingUrl r u) = steps r"
  "currentStep (withBrowsingUrl r u) = currentStep r"
  "response (withBrowsingUrl r u) = response r"
  "hasStopButton (withBrowsingUrl r u) = hasStopButton r"
  "agentBrowsingUrl (withBrowsingUrl r u) = u"
  by (cases r; simp add: withBrowsingUrl_def eval_result.defs agent_status.defs)+

text \<open>
  \<open>getAgentStatus\<close> returns what the script computes on the page's snapshot, with the URL
  of the agent's tab added: the claims about the status, the steps and the response are
  stated on the script.
\<close>

lemma getAgentStatus_script:
  assumes "getAgentStatus E w = (Inr s, w')"
  shows "\<exists>snap u. onSnapshot E (hist w @ [ListTabsCategorized, SafeEvaluate AgentStatusScript]) = Inr snap \<and>
           s = withBrowsingUrl (agentStatusScript snap) u"
  using assms
  by (auto simp: getAgentStatus_def callWith_def perform_def Let_def split: sum.splits option.splits)

subsection \<open>\<open>indexOf\<close> finds the first occurrence\<close>

lemma indexOfAux_none:
  "indexOfAux p s i = - 1 \<Longrightarrow> j \<le> length s \<Longrightarrow> \<not> startsWith (drop j s) p"
proof (induction s arbitrary: i j)
  case Nil
  then show ?case by (auto simp: startsWith_def split: if_splits)
next
  case (Cons c cs)
  from Cons.prems(1) have a: "\<not> startsWith (c # cs) p" and b: "indexOfAux p cs (Suc i) = - 1"
    by (auto split: if_splits)
  show ?case
  proof (cases j)
    case 0
    with a show ?thesis by simp
  next
    case (Suc j')
    with Cons.prems(2) have "j' \<le> length cs" by simp
    from Cons.IH [OF b this] Suc show ?thesis by simp
  qed
qed

lemma indexOfAux_some:
  "indexOfAux p s i = int k \<Longrightarrow>
   i \<le> k \<and> k - i \<le> length s \<and> startsWith (drop (k - i) s) p \<and>
   (\<forall>j < k - i. \<not> startsWith (drop j s) p)"
proof (induction s arbitrary: i)
  case Nil
  then show ?case by (auto simp: startsWith_def split: if_splits)
next
  case (Cons c cs)
  show ?case
  proof (cases "startsWith (c # cs) p")
    case True
    with Cons.prems have "k = i" by simp
    with True show ?thesis by simp
  next
    case False
    with Cons.prems have "indexOfAux p cs (Suc i) = int k" by simp
    from Cons.IH [OF this]
    have a: "Suc i \<le> k" and b: "k - Suc i \<le> length cs"
      and c: "startsWith (drop (k - Suc i) cs) p"
      and d: "\<forall>j < k - Suc i. \<not> startsWith (drop j cs) p"
      by simp_all
    from a have e: "k - i = Suc (k - Suc i)" by simp
    have "\<forall>j < k - i. \<not> startsWith (drop j (c # cs)) p"
    proof (intro allI impI)
      fix j assume "j < k - i"
      show "\<not> startsWith (drop j (c # cs)) p"
      proof (cases j)
        case 0
        with False show ?thesis by simp
      next
        case (Suc j')
        with \<open>j < k - i\<close> e have "j' < k - Suc i" by simp
        with d Suc show ?thesis by simp
      qed
    qed
    with a b c e show ?thesis by simp
  qed
qed

lemma indexOf_none:
  assumes "indexOf s p (int q) = - 1" and "q \<le> j"
  shows "\<not> occursAt p s j"
proof
  assume o: "occursAt p s j"
  then have j: "j \<le> length s" and w: "startsWith (drop j s) p"
    by (simp_all add: occursAt_def)
  from assms(2) j have q: "min q (length s) = q" by simp
  from assms(1) have "indexOfAux p (drop q s) q = - 1"
    by (simp add: indexOf_def q)
  from indexOfAux_none [OF this, of "j - q"] j assms(2)
  have "\<not> startsWith (drop (j - q) (drop q s)) p" by simp
  with w assms(2) show False by simp
qed

lemma indexOf_some:
  assumes "indexOf s p (int q) = int k" and "q \<le> length s"
  shows "q \<le> k \<and> occursAt p s k \<and> (\<forall>j. q \<le> j \<and> j < k \<longrightarrow> \<not> occursAt p s j)"
proof -
  from assms have "indexOfAux p (drop q s) q = int k"
    by (simp add: indexOf_def)
  note f = indexOfAux_some [OF this]
  from f have a: "q \<le> k" by blast
  from f have b: "k - q \<le> length s - q" by simp
  from f have c: "startsWith (drop (k - q) (drop q s)) p" by blast
  from f have d: "\<forall>j < k - q. \<not> startsWith (drop j (drop q s)) p" by blast
  from a b assms(2) have k: "k \<le> length s" by simp
  from a have "k - q + q = k" by simp
  with c have "startsWith (drop k s) p" by (simp add: add.commute)
  with k have o: "occursAt p s k" by (simp add: occursAt_def)
  have "\<forall>j. q \<le> j \<and> j < k \<longrightarrow> \<not> occursAt p s j"
  proof (intro allI impI)
    fix j assume h: "q \<le> j \<and> j < k"
    then have "j - q < k - q" by linarith
    with d have "\<not> startsWith (drop (j - q) (drop q s)) p" by blast
    with h show "\<not> occursAt p s j" by (simp add: occursAt_def)
  qed
  with a o show ?thesis by simp
qed

lemma indexOf_cases: "indexOf s p pos = - 1 \<or> (\<exists>k. indexOf s p pos = int k)"
proof (cases "indexOf s p pos = - 1")
  case True
  then show ?thesis by simp
next
  case False
  with indexOf_ge [of s p pos] have "0 \<le> indexOf s p pos" by simp
  then have "indexOf s p pos = int (nat (indexOf s p pos))" by simp
  then show ?thesis by blast
qed

subsection \<open>The end index of strategy 2\<close>

lemma endIndex2_spec:
  assumes "q \<le> length b"
  shows "endIndex2 b (int q) ms e0 \<le> e0 \<and>
         (endIndex2 b (int q) ms e0 = e0 \<or>
          (int q < endIndex2 b (int q) ms e0 \<and>
           (\<exists>mk \<in> set ms. occursAt mk b (nat (endIndex2 b (int q) ms e0))))) \<and>
         (\<forall>mk \<in> set ms. \<forall>j. q \<le> j \<and> int j < endIndex2 b (int q) ms e0 \<and> occursAt mk b j \<longrightarrow>
            occursAt mk b q)"
proof (induction ms arbitrary: e0)
  case Nil
  show ?case by simp
next
  case (Cons mk ms)
  let ?idx = "indexOf b mk (int q)"
  let ?e1 = "if int q < ?idx \<and> ?idx < e0 then ?idx else e0"
  let ?e = "endIndex2 b (int q) ms ?e1"
  have r: "endIndex2 b (int q) (mk # ms) e0 = ?e"
    by (simp add: Let_def)
  from Cons.IH [of ?e1]
  have a: "?e \<le> ?e1"
    and bb: "?e = ?e1 \<or> (int q < ?e \<and> (\<exists>m \<in> set ms. occursAt m b (nat ?e)))"
    and c: "\<forall>m \<in> set ms. \<forall>j. q \<le> j \<and> int j < ?e \<and> occursAt m b j \<longrightarrow> occursAt m b q"
    by simp_all
  have le: "?e1 \<le> e0" by simp
  have p1: "?e \<le> e0" using a le by linarith
  have p2: "?e = e0 \<or> (int q < ?e \<and> (\<exists>m \<in> set (mk # ms). occursAt m b (nat ?e)))"
  proof (cases "?e = ?e1")
    case False
    with bb show ?thesis by auto
  next
    case True
    show ?thesis
    proof (cases "int q < ?idx \<and> ?idx < e0")
      case False
      then have "?e1 = e0" by auto
      with True show ?thesis by simp
    next
      case t: True
      then obtain k where k: "?idx = int k"
        using indexOf_cases [of b mk "int q"] by auto
      from indexOf_some [OF k assms] have o: "occursAt mk b k" by simp
      from True t k have "?e = int k" by simp
      with t k o show ?thesis by simp
    qed
  qed
  have p3: "\<forall>j. q \<le> j \<and> int j < ?e \<and> occursAt mk b j \<longrightarrow> occursAt mk b q"
  proof (intro allI impI)
    fix j assume h: "q \<le> j \<and> int j < ?e \<and> occursAt mk b j"
    have n: "?idx \<noteq> - 1"
    proof
      assume "?idx = - 1"
      from indexOf_none [OF this, of j] h show False by simp
    qed
    then obtain k where k: "?idx = int k"
      using indexOf_cases [of b mk "int q"] by auto
    from indexOf_some [OF k assms]
    have qk: "q \<le> k" and ok: "occursAt mk b k"
      and first: "\<forall>i. q \<le> i \<and> i < k \<longrightarrow> \<not> occursAt mk b i"
      by simp_all
    from first h have kj: "k \<le> j"
      by (meson not_le_imp_less)
    show "occursAt mk b q"
    proof (cases "k = q")
      case True
      with ok show ?thesis by simp
    next
      case False
      with qk have qi: "int q < ?idx" using k by simp
      have "?e1 \<le> ?idx"
        using qi by simp
      with a have "?e \<le> int k" using k by linarith
      with h kj show ?thesis by linarith
    qed
  qed
  from p1 p2 p3 c show ?case
    unfolding r by simp
qed

subsection \<open>A match lies inside the string\<close>

lemma matchHere_le: "matchHere ci r s = Some n \<Longrightarrow> n \<le> length s"
proof (induction ci r s arbitrary: n rule: matchHere.induct)
  case (1 ci s)
  then show ?case by simp
next
  case (2 ci a r)
  then show ?case by simp
next
  case (3 ci a r c cs)
  then show ?case by (auto split: if_splits)
next
  case (4 ci a r)
  then show ?case by simp
next
  case (5 ci a r c cs)
  then show ?case by (auto split: if_splits option.splits)
next
  case (6 ci a r)
  then show ?case by simp
next
  case (7 ci a r c cs)
  then show ?case by (auto split: if_splits option.splits)
next
  case (8 ci a r)
  then show ?case by simp
next
  case (9 ci a r c cs)
  then show ?case by (auto split: if_splits)
qed

lemma rxSearch_le: "rxSearch ci r s = Some (i, n) \<Longrightarrow> i + n \<le> length s"
proof (induction s arbitrary: i)
  case Nil
  then show ?case using matchHere_le [of ci r "[]"] by (auto split: option.splits)
next
  case (Cons c cs)
  show ?case
  proof (cases "matchHere ci r (c # cs)")
    case (Some k)
    with Cons.prems have "i = 0" "n = k" by simp_all
    with matchHere_le [OF Some] show ?thesis by simp
  next
    case None
    with Cons.prems obtain i' where "rxSearch ci r cs = Some (i', n)" and "i = Suc i'"
      by (auto split: option.splits)
    with Cons.IH [of i'] show ?thesis by simp
  qed
qed

lemma rxMatch_occurs:
  assumes "rxMatch ci r s = Some m"
  shows "\<exists>i. occursAt m s i \<and> i + length m \<le> length s"
proof -
  from assms obtain i n where a: "rxSearch ci r s = Some (i, n)" and m: "m = take n (drop i s)"
    by (auto simp: rxMatch_def split: option.splits)
  from rxSearch_le [OF a] have l: "i + n \<le> length s" .
  then have "length m = n" by (simp add: m)
  with l m have "occursAt m s i \<and> i + length m \<le> length s"
    by (simp add: occursAt_def startsWith_def)
  then show ?thesis by blast
qed

lemma occursAt_le: "occursAt p s j \<Longrightarrow> j + length p \<le> length s"
proof -
  assume "occursAt p s j"
  then have j: "j \<le> length s" and t: "take (length p) (drop j s) = p"
    by (simp_all add: occursAt_def startsWith_def)
  from t have "length (take (length p) (drop j s)) = length p" by simp
  then have "length p \<le> length s - j" by simp
  with j show ?thesis by simp
qed

lemma endIndex2_first:
  assumes "q \<le> length b"
  shows "endIndex2 b (int q) ms e0 = e0 \<or>
         (int q < endIndex2 b (int q) ms e0 \<and>
          (\<exists>mk \<in> set ms. occursAt mk b (nat (endIndex2 b (int q) ms e0)) \<and>
             (\<forall>j. q \<le> j \<and> j < nat (endIndex2 b (int q) ms e0) \<longrightarrow> \<not> occursAt mk b j)))"
proof (induction ms arbitrary: e0)
  case Nil
  show ?case by simp
next
  case (Cons mk ms)
  let ?idx = "indexOf b mk (int q)"
  let ?e1 = "if int q < ?idx \<and> ?idx < e0 then ?idx else e0"
  let ?e = "endIndex2 b (int q) ms ?e1"
  have r: "endIndex2 b (int q) (mk # ms) e0 = ?e"
    by (simp add: Let_def)
  from Cons.IH [of ?e1]
  have bb: "?e = ?e1 \<or> (int q < ?e \<and> (\<exists>m \<in> set ms. occursAt m b (nat ?e) \<and>
             (\<forall>j. q \<le> j \<and> j < nat ?e \<longrightarrow> \<not> occursAt m b j)))"
    by simp
  have "?e = e0 \<or> (int q < ?e \<and> (\<exists>m \<in> set (mk # ms). occursAt m b (nat ?e) \<and>
             (\<forall>j. q \<le> j \<and> j < nat ?e \<longrightarrow> \<not> occursAt m b j)))"
  proof (cases "?e = ?e1")
    case False
    with bb show ?thesis by auto
  next
    case True
    show ?thesis
    proof (cases "int q < ?idx \<and> ?idx < e0")
      case False
      then have "?e1 = e0" by auto
      with True show ?thesis by simp
    next
      case t: True
      then obtain k where k: "?idx = int k"
        using indexOf_cases [of b mk "int q"] by auto
      from indexOf_some [OF k assms] have o: "occursAt mk b k"
        and f: "\<forall>j. q \<le> j \<and> j < k \<longrightarrow> \<not> occursAt mk b j" by simp_all
      from True t k have "?e = int k" by simp
      with t k o f show ?thesis by simp
    qed
  qed
  then show ?case
    unfolding r by simp
qed

lemma responseEnd2_unique:
  assumes "responseEnd2 b q e" and "responseEnd2 b q e'"
  shows "e' = e"
proof -
  have less: "\<not> x < y" if x: "responseEnd2 b q x" and y: "responseEnd2 b q y" for x y
  proof
    assume l: "x < y"
    from y have "y \<le> length b" by (simp add: responseEnd2_def)
    with l have "x \<noteq> length b" by simp
    with x obtain mk where mk: "mk \<in> set endMarkers2" and qx: "q < x" and o: "occursAt mk b x"
      and f: "\<forall>j \<in> {q..<x}. \<not> occursAt mk b j"
      unfolding responseEnd2_def by blast
    from qx l have "x \<in> {q..<y}" by simp
    with y mk o have "occursAt mk b q"
      unfolding responseEnd2_def by blast
    moreover from qx f have "\<not> occursAt mk b q" by simp
    ultimately show False by simp
  qed
  from less [OF assms] less [OF assms(2) assms(1)] show ?thesis by simp
qed

lemma strategy2_end:
  assumes "rxMatch False reviewedRx b = Some m"
  shows "\<exists>i e. occursAt m b i \<and> (\<forall>j < i. \<not> occursAt m b j) \<and>
           responseEnd2 b (i + length m) e \<and>
           strategy2 b r0 = trim (take (e - (i + length m)) (drop (i + length m) b))"
proof -
  from rxMatch_occurs [OF assms] obtain i0 where o0: "occursAt m b i0" by blast
  have n: "indexOf b m 0 \<noteq> - 1"
  proof
    assume "indexOf b m 0 = - 1"
    then have "indexOf b m (int 0) = - 1" by simp
    from indexOf_none [OF this, of i0] o0 show False by simp
  qed
  then obtain i where i: "indexOf b m 0 = int i"
    using indexOf_cases [of b m 0] by auto
  then have "indexOf b m (int 0) = int i" by simp
  from indexOf_some [OF this]
  have oi: "occursAt m b i" and first: "\<forall>j < i. \<not> occursAt m b j"
    by simp_all
  let ?q = "i + length m"
  have q: "?q \<le> length b" using oi by (rule occursAt_le)
  let ?e = "endIndex2 b (int ?q) endMarkers2 (int (length b))"
  from endIndex2_spec [OF q, of endMarkers2 "int (length b)"]
  have a: "?e \<le> int (length b)"
    and c: "\<forall>mk \<in> set endMarkers2. \<forall>j. ?q \<le> j \<and> int j < ?e \<and> occursAt mk b j \<longrightarrow> occursAt mk b ?q"
    by simp_all
  from endIndex2_first [OF q, of endMarkers2 "int (length b)"]
  have bb: "?e = int (length b) \<or> (int ?q < ?e \<and> (\<exists>mk \<in> set endMarkers2. occursAt mk b (nat ?e) \<and>
             (\<forall>j. ?q \<le> j \<and> j < nat ?e \<longrightarrow> \<not> occursAt mk b j)))" .
  from bb q have ge: "int ?q \<le> ?e" by auto
  have s: "strategy2 b r0 = trim (substring b (int ?q) ?e)"
    by (simp add: strategy2_def assms i Let_def)
  have sub: "substring b (int ?q) ?e = take (nat ?e - ?q) (drop ?q b)"
    using q ge a by (simp add: substring_def Let_def min_def max_def nat_int_add)
  have e1: "?q \<le> nat ?e" using ge by simp
  have e2: "nat ?e \<le> length b" using a by simp
  have e3: "nat ?e = length b \<or> (\<exists>mk \<in> set endMarkers2. ?q < nat ?e \<and> occursAt mk b (nat ?e) \<and>
      (\<forall>j \<in> {?q..<nat ?e}. \<not> occursAt mk b j))"
    using bb by auto
  have e4: "\<forall>mk \<in> set endMarkers2. \<forall>j \<in> {?q..<nat ?e}. occursAt mk b j \<longrightarrow> occursAt mk b ?q"
  proof (intro ballI impI)
    fix mk j assume mk: "mk \<in> set endMarkers2" and j: "j \<in> {?q..<nat ?e}" and o: "occursAt mk b j"
    from j have "?q \<le> j" and "int j < ?e" by auto
    with c mk o show "occursAt mk b ?q" by blast
  qed
  from e1 e2 e3 e4 have "responseEnd2 b ?q (nat ?e)"
    unfolding responseEnd2_def by blast
  with oi first s sub show ?thesis
    by (intro exI [of _ i] exI [of _ "nat ?e"]) simp
qed

subsection \<open>The matches of one pattern come in the order of the text\<close>



subsection \<open>The example snapshots, evaluated\<close>

lemmas str_eval = str_def startsWith_def includesStr_def indexOf_def substring_def substringFrom_def
  isWhiteSpace_def trim_def toLowerCase_def canonicalize_def rxTest_def rxMatch_def lits_def Let_def

lemma bodyReviewed_units:
  "bodyReviewed = [82, 101, 118, 105, 101, 119, 101, 100, 32, 52, 32, 115, 111, 117, 114, 99, 101, 115,
     10, 65, 110, 115, 119, 101, 114, 32, 116, 101, 120, 116, 32, 104, 101, 114, 101,
     10, 82, 101, 108, 97, 116, 101, 100]"
  by (simp add: bodyReviewed_def str_def)

lemma reviewed_status: "determineStatus snapReviewed = Completed"
  by (simp add: determineStatus_def snapReviewed_def bodyReviewed_units hasStepsCompleted_def
      hasFinishedMarker_def hasReviewedSources_def hasWorkingText_def stepsCompletedRx_def
      reviewedRx_def workingPatterns_def str_eval)

lemma reviewed_match: "rxMatch False reviewedRx bodyReviewed = Some (str ''Reviewed 4 sources'')"
  by (simp add: bodyReviewed_units reviewedRx_def str_eval)

lemma reviewed_end: "endIndex2 bodyReviewed 18 endMarkers2 43 = 36"
  by (simp add: bodyReviewed_units endMarkers2_def str_eval)

lemma reviewed_strategy2: "strategy2 bodyReviewed [] = str ''Answer text here''"
proof -
  have a: "indexOf bodyReviewed (str ''Reviewed 4 sources'') 0 + int (length (str ''Reviewed 4 sources'')) = 18"
    by (simp add: bodyReviewed_units str_eval)
  have b: "int (length bodyReviewed) = 43"
    by (simp add: bodyReviewed_units)
  have c: "trim (substring bodyReviewed 18 36) = str ''Answer text here''"
    by (simp add: bodyReviewed_units str_eval)
  show ?thesis
    unfolding strategy2_def by (simp only: reviewed_match option.case Let_def a b reviewed_end c)
qed

lemma reviewed_nosteps: "extractSteps bodyReviewed = []"
  by (simp add: extractSteps_def stepPatterns_def bodyReviewed_units str_eval)

lemma stopSteps_button: "hasActiveStopButton (buttons snapStopSteps)"
  by (simp add: snapStopSteps_def stopButton_def isActiveStop_def str_eval)

lemma stopSteps_marker: "hasStepsCompleted (body snapStopSteps)"
  by (simp add: snapStopSteps_def hasStepsCompleted_def stepsCompletedRx_def str_eval)

lemma bodyCopy_units:
  "bodyCopy = [82, 101, 118, 105, 101, 119, 101, 100, 32, 52, 32, 115, 111, 117, 114, 99, 101, 115,
     10, 67, 111, 112, 121, 32, 116, 104, 101, 32, 102, 105, 108, 101, 32, 116, 111, 32, 116, 104, 101,
     32, 115, 101, 114, 118, 101, 114, 10, 82, 101, 108, 97, 116, 101, 100]"
  by (simp add: bodyCopy_def str_def)

lemma prose_status: "determineStatus snapProse = Completed"
  by (simp add: determineStatus_def snapProse_def bodyCopy_units hasStepsCompleted_def
      hasFinishedMarker_def hasReviewedSources_def hasWorkingText_def stepsCompletedRx_def
      reviewedRx_def workingPatterns_def str_eval)

lemma prose_reviewed: "hasReviewedSources (body snapProse)"
  by (simp add: snapProse_def bodyCopy_units hasReviewedSources_def reviewedRx_def str_eval)

lemma prose_noworking: "\<not> hasWorkingText (body snapProse)"
  by (simp add: snapProse_def bodyCopy_units hasWorkingText_def workingPatterns_def str_eval)

lemma prose_strategy1: "strategy1 snapProse = str ''Copy the file to the server''"
  by (simp add: strategy1_def snapProse_def str_eval)

lemma prose_strategy2: "strategy2 (body snapProse) [] = []"
proof -
  have m: "rxMatch False reviewedRx bodyCopy = Some (str ''Reviewed 4 sources'')"
    by (simp add: bodyCopy_units reviewedRx_def str_eval)
  have a: "indexOf bodyCopy (str ''Reviewed 4 sources'') 0 + int (length (str ''Reviewed 4 sources'')) = 18"
    by (simp add: bodyCopy_units str_eval)
  have b: "int (length bodyCopy) = 54"
    by (simp add: bodyCopy_units)
  have e: "endIndex2 bodyCopy 18 endMarkers2 54 = 19"
    by (simp add: bodyCopy_units endMarkers2_def str_eval)
  have c: "trim (substring bodyCopy 18 19) = []"
    by (simp add: bodyCopy_units str_eval)
  have d: "body snapProse = bodyCopy"
    by (simp add: snapProse_def)
  show ?thesis
    unfolding strategy2_def d by (simp only: m option.case Let_def a b e c)
qed




lemma bodyShortAnswer_units:
  "bodyShortAnswer = [51, 32, 115, 116, 101, 112, 115, 32, 99, 111, 109, 112, 108, 101, 116, 101, 100, 10,
     82, 101, 118, 105, 101, 119, 101, 100, 32, 50, 32, 115, 111, 117, 114, 99, 101, 115, 10,
     89, 101, 115, 10, 82, 101, 108, 97, 116, 101, 100]"
  by (simp add: bodyShortAnswer_def str_def)

lemma shortAnswer_status: "determineStatus snapShortAnswer = Completed"
  by (simp add: determineStatus_def snapShortAnswer_def bodyShortAnswer_units hasStepsCompleted_def
      stepsCompletedRx_def str_eval)

lemma shortAnswer_strategy2: "strategy2 bodyShortAnswer [] = str ''Yes''"
proof -
  have m: "rxMatch False reviewedRx bodyShortAnswer = Some (str ''Reviewed 2 sources'')"
    by (simp add: bodyShortAnswer_units reviewedRx_def str_eval)
  have a: "indexOf bodyShortAnswer (str ''Reviewed 2 sources'') 0 + int (length (str ''Reviewed 2 sources'')) = 36"
    by (simp add: bodyShortAnswer_units str_eval)
  have b: "int (length bodyShortAnswer) = 48"
    by (simp add: bodyShortAnswer_units)
  have e: "endIndex2 bodyShortAnswer 36 endMarkers2 48 = 41"
    by (simp add: bodyShortAnswer_units endMarkers2_def str_eval)
  have c: "trim (substring bodyShortAnswer 36 41) = str ''Yes''"
    by (simp add: bodyShortAnswer_units str_eval)
  show ?thesis
    unfolding strategy2_def by (simp only: m option.case Let_def a b e c)
qed

lemma shortAnswer_marker: "includesStr bodyShortAnswer (str ''steps completed'')"
  by (simp add: bodyShortAnswer_units str_eval)

lemma shortAnswer_strategy3: "strategy3 bodyShortAnswer [] = str ''Reviewed 2 sources'' @ [10] @ str ''Yes''"
proof -
  have a: "indexOf bodyShortAnswer (str ''steps completed'') 0 = 2"
    by (simp add: bodyShortAnswer_units str_eval)
  have s: "substringFrom bodyShortAnswer (2 + 15) = [10] @ str ''Reviewed 2 sources'' @ [10] @ str ''Yes'' @ [10] @ str ''Related''"
    by (simp add: bodyShortAnswer_units str_eval)
  have u: "[10] @ str ''Reviewed 2 sources'' @ [10] @ str ''Yes'' @ [10] @ str ''Related'' =
      [10, 82, 101, 118, 105, 101, 119, 101, 100, 32, 50, 32, 115, 111, 117, 114, 99, 101, 115, 10,
       89, 101, 115, 10, 82, 101, 108, 97, 116, 101, 100]"
    by (simp add: str_def)
  have e: "endIndex3 [10, 82, 101, 118, 105, 101, 119, 101, 100, 32, 50, 32, 115, 111, 117, 114, 99, 101, 115, 10,
       89, 101, 115, 10, 82, 101, 108, 97, 116, 101, 100] endMarkers3 31 = 24"
    by (simp add: endMarkers3_def str_eval)
  have c: "trim (substring [10, 82, 101, 118, 105, 101, 119, 101, 100, 32, 50, 32, 115, 111, 117, 114, 99, 101, 115, 10,
       89, 101, 115, 10, 82, 101, 108, 97, 116, 101, 100] 0 24) = str ''Reviewed 2 sources'' @ [10] @ str ''Yes''"
    by (simp add: str_eval)
  have l: "int (length [10, 82, 101, 118, 105, 101, 119, 101, 100, 32, 50, 32, 115, 111, 117, 114, 99, 101, 115, 10,
       89, 101, 115, 10, 82, 101, 108, 97, 116, 101, 100 :: nat]) = 31"
    by simp
  show ?thesis
    unfolding strategy3_def by (simp only: Let_def a s u l e c) simp
qed

lemma idle_status: "determineStatus snapIdle = Idle"
  by (simp add: determineStatus_def snapIdle_def hasStepsCompleted_def
      hasFinishedMarker_def hasReviewedSources_def hasWorkingText_def stepsCompletedRx_def
      reviewedRx_def workingPatterns_def str_eval)

lemma shortAnswer_reviewed: "hasReviewedSources bodyShortAnswer"
  by (simp add: bodyShortAnswer_units hasReviewedSources_def reviewedRx_def str_eval)

lemma shortAnswer_noworking: "\<not> hasWorkingText bodyShortAnswer"
  by (simp add: bodyShortAnswer_units hasWorkingText_def workingPatterns_def str_eval)


lemma bodyCopyTwice_units:
  "bodyCopyTwice = [82, 101, 118, 105, 101, 119, 101, 100, 32, 52, 32, 115, 111, 117, 114, 99, 101, 115, 67,
     111, 112, 121, 32, 116, 104, 105, 115, 32, 116, 101, 120, 116, 32, 67, 111, 112, 121, 32,
     116, 104, 97, 116, 32, 82, 101, 108, 97, 116, 101, 100]"
  by (simp add: bodyCopyTwice_def str_def)

lemma copyTwice_reviewed: "hasReviewedSources bodyCopyTwice"
  by (simp add: bodyCopyTwice_units hasReviewedSources_def reviewedRx_def str_eval)

lemma copyTwice_noworking: "\<not> hasWorkingText bodyCopyTwice"
  by (simp add: bodyCopyTwice_units hasWorkingText_def workingPatterns_def str_eval)

lemma copyTwice_match: "rxMatch False reviewedRx bodyCopyTwice = Some (str ''Reviewed 4 sources'')"
  by (simp add: bodyCopyTwice_units reviewedRx_def str_eval)

lemma copyTwice_start: "occursAt (str ''Reviewed 4 sources'') bodyCopyTwice 0"
  by (simp add: bodyCopyTwice_units occursAt_def str_eval)

lemma copyTwice_end: "responseEnd2 bodyCopyTwice 18 43"
  by (simp add: responseEnd2_def endMarkers2_def bodyCopyTwice_units occursAt_def
      atLeastLessThan_upt upt_rec_numeral str_eval)

lemma copyTwice_not33: "\<not> responseEnd2 bodyCopyTwice 18 33"
  by (simp add: responseEnd2_def endMarkers2_def bodyCopyTwice_units occursAt_def
      atLeastLessThan_upt upt_rec_numeral str_eval)

lemma copyTwice_text:
  "trim (take (43 - 18) (drop 18 bodyCopyTwice)) = str ''Copy this text Copy that''"
  by (simp add: bodyCopyTwice_units str_eval)

section \<open>Claims about the status script\<close>

text \<open>
  C1. Rule 1 of the classifier comes before rule 2: whenever the script finds an active,
  enabled, visible stop button or a spinner element, the status is \<open>working\<close>, whatever
  markers the body text holds.
\<close>

theorem C1_stop_or_spinner_is_working:
  "hasActiveStopButton (buttons snap) \<or> spinnerPresent snap \<Longrightarrow>
   status (agentStatusScript snap) = Working"
  by (auto simp: agentStatusScript_status determineStatus_def)

text \<open>The snapshot with an active stop button and the text \<open>3 steps completed\<close>.\<close>

theorem C1_witness:
  "hasActiveStopButton (buttons snapStopSteps) \<and> hasStepsCompleted (body snapStopSteps) \<and>
   status (agentStatusScript snapStopSteps) = Working"
  using C1_stop_or_spinner_is_working [of snapStopSteps] stopSteps_button stopSteps_marker
  by simp

text \<open>
  C2, as stated, fails. The snapshot \<open>snapProse\<close> matches \<open>Reviewed N sources\<close>, has no
  working vocabulary, no stop button and no spinner; the text between the marker and the
  first end marker (\<open>Copy\<close>, right after the line break) is empty, yet the response is the
  text of the prose element, which strategy 1 finds first. In \<open>snapShortAnswer\<close>, which has
  no prose element, the text between the marker and \<open>Related\<close> is \<open>Yes\<close>, yet the response
  is what strategy 3 cuts out after \<open>steps completed\<close>.
\<close>

theorem C2_counterexample:
  "hasReviewedSources (body snapProse) \<and> \<not> hasWorkingText (body snapProse) \<and>
   \<not> hasActiveStopButton (buttons snapProse) \<and> \<not> spinnerPresent snapProse \<and>
   strategy2 (body snapProse) [] = [] \<and>
   response (agentStatusScript snapProse) = str ''Copy the file to the server'' \<and>
   hasReviewedSources (body snapShortAnswer) \<and> \<not> hasWorkingText (body snapShortAnswer) \<and>
   \<not> hasActiveStopButton (buttons snapShortAnswer) \<and> \<not> spinnerPresent snapShortAnswer \<and>
   strategy2 (body snapShortAnswer) [] = str ''Yes'' \<and>
   response (agentStatusScript snapShortAnswer) = str ''Reviewed 2 sources'' @ [10] @ str ''Yes''"
proof -
  have ne: "strategy1 snapProse \<noteq> []"
    by (simp add: prose_strategy1 str_def)
  have r: "response (agentStatusScript snapProse) = take 3000 (strategy1 snapProse)"
    using ne by (simp add: agentStatusScript_response agentStatusScript_status prose_status)
  have t: "take 3000 (strategy1 snapProse) = str ''Copy the file to the server''"
    by (simp add: prose_strategy1 str_def)
  have e: "response (agentStatusScript snapProse) = str ''Copy the file to the server''"
    using r t by (rule trans)
  have n: "\<not> hasActiveStopButton (buttons snapProse) \<and> \<not> spinnerPresent snapProse"
    by (simp add: snapProse_def)
  have b: "body snapShortAnswer = bodyShortAnswer"
    by (simp add: snapShortAnswer_def)
  have s1: "strategy1 snapShortAnswer = []"
    by (simp add: strategy1_def snapShortAnswer_def)
  have l: "\<not> 5 \<le> length (str ''Yes'')"
    by (simp add: str_def)
  have r': "response (agentStatusScript snapShortAnswer) = take 3000 (strategy3 bodyShortAnswer [])"
    using l shortAnswer_marker
    by (simp add: agentStatusScript_response agentStatusScript_status shortAnswer_status s1 b
        shortAnswer_strategy2)
  have t': "take 3000 (strategy3 bodyShortAnswer []) = str ''Reviewed 2 sources'' @ [10] @ str ''Yes''"
    by (simp add: shortAnswer_strategy3 str_def)
  have e': "response (agentStatusScript snapShortAnswer) = str ''Reviewed 2 sources'' @ [10] @ str ''Yes''"
    using r' t' by (rule trans)
  have n': "\<not> hasActiveStopButton (buttons snapShortAnswer) \<and> \<not> spinnerPresent snapShortAnswer"
    by (simp add: snapShortAnswer_def)
  have s2: "strategy2 (body snapShortAnswer) [] = str ''Yes''"
    unfolding b by (rule shortAnswer_strategy2)
  have h: "hasReviewedSources (body snapShortAnswer) \<and> \<not> hasWorkingText (body snapShortAnswer)"
    unfolding b using shortAnswer_reviewed shortAnswer_noworking by simp
  from prose_reviewed prose_noworking n prose_strategy2 e h n' s2 e'
  show ?thesis by (intro conjI) simp_all
qed

text \<open>
  C2, amended. A body that matches \<open>Reviewed N sources\<close> (in any letter case), with no
  working vocabulary, no active stop button and no spinner, is classified \<open>completed\<close>.
  When moreover no prose element supplies an answer and the text that strategy 2 cuts out
  has at least five code units or the body has no \<open>steps completed\<close>, the response is
  that text, cut to 3000 code units. That text is empty when the body does not hold the
  marker in the exact letter case; when it does, with \<open>m\<close> the marker as matched, the
  text runs from the end of the first occurrence of \<open>m\<close> to the index \<open>e\<close>, trimmed,
  where \<open>e\<close> is the one index that \<open>responseEnd2\<close> describes: the least of the indices
  where the end markers that do not stand right at the end of \<open>m\<close> occur first after
  it, or the end of the body when there is none.
\<close>

theorem C2_reviewed_sources_completed:
  assumes "hasReviewedSources (body snap)"
    and "\<not> hasWorkingText (body snap)"
    and "\<not> hasActiveStopButton (buttons snap)"
    and "\<not> spinnerPresent snap"
  shows "status (agentStatusScript snap) = Completed \<and>
         (strategy1 snap = [] \<and>
          (5 \<le> length (strategy2 (body snap) []) \<or>
           \<not> includesStr (body snap) (str ''steps completed'')) \<longrightarrow>
          response (agentStatusScript snap) = take 3000 (strategy2 (body snap) [])) \<and>
         (rxMatch False reviewedRx (body snap) = None \<longrightarrow> strategy2 (body snap) [] = []) \<and>
         (\<forall>m. rxMatch False reviewedRx (body snap) = Some m \<longrightarrow>
            (\<exists>i e. occursAt m (body snap) i \<and> (\<forall>j < i. \<not> occursAt m (body snap) j) \<and>
               responseEnd2 (body snap) (i + length m) e \<and>
               (\<forall>e'. responseEnd2 (body snap) (i + length m) e' \<longrightarrow> e' = e) \<and>
               strategy2 (body snap) [] =
                 trim (take (e - (i + length m)) (drop (i + length m) (body snap)))))"
proof -
  have c: "status (agentStatusScript snap) = Completed"
    using assms by (simp add: agentStatusScript_status determineStatus_def)
  have r: "strategy1 snap = [] \<and>
          (5 \<le> length (strategy2 (body snap) []) \<or>
           \<not> includesStr (body snap) (str ''steps completed'')) \<longrightarrow>
          response (agentStatusScript snap) = take 3000 (strategy2 (body snap) [])"
    using c by (auto simp: agentStatusScript_response)
  have n: "rxMatch False reviewedRx (body snap) = None \<longrightarrow> strategy2 (body snap) [] = []"
    by (simp add: strategy2_def)
  have b: "\<forall>m. rxMatch False reviewedRx (body snap) = Some m \<longrightarrow>
            (\<exists>i e. occursAt m (body snap) i \<and> (\<forall>j < i. \<not> occursAt m (body snap) j) \<and>
               responseEnd2 (body snap) (i + length m) e \<and>
               (\<forall>e'. responseEnd2 (body snap) (i + length m) e' \<longrightarrow> e' = e) \<and>
               strategy2 (body snap) [] =
                 trim (take (e - (i + length m)) (drop (i + length m) (body snap))))"
  proof (intro allI impI)
    fix m assume "rxMatch False reviewedRx (body snap) = Some m"
    from strategy2_end [OF this, of "[]"]
    obtain i e where o: "occursAt m (body snap) i" and f: "\<forall>j < i. \<not> occursAt m (body snap) j"
      and e: "responseEnd2 (body snap) (i + length m) e"
      and s: "strategy2 (body snap) [] =
                 trim (take (e - (i + length m)) (drop (i + length m) (body snap)))"
      by blast
    from e have u: "\<forall>e'. responseEnd2 (body snap) (i + length m) e' \<longrightarrow> e' = e"
      using responseEnd2_unique by blast
    from o f e u s
    show "\<exists>i e. occursAt m (body snap) i \<and> (\<forall>j < i. \<not> occursAt m (body snap) j) \<and>
               responseEnd2 (body snap) (i + length m) e \<and>
               (\<forall>e'. responseEnd2 (body snap) (i + length m) e' \<longrightarrow> e' = e) \<and>
               strategy2 (body snap) [] =
                 trim (take (e - (i + length m)) (drop (i + length m) (body snap)))"
      by blast
  qed
  from c r n b show ?thesis by blast
qed

text \<open>
  The literal snapshot of the specification: \<open>completed\<close>, with the answer text. And a
  body in which \<open>Copy\<close> stands right after the marker and once more further on: both
  occurrences are passed over, the text ends at \<open>Related\<close> (index 43, not 33).
\<close>

theorem C2_witness:
  "hasReviewedSources (body snapReviewed) \<and> \<not> hasWorkingText (body snapReviewed) \<and>
   \<not> hasActiveStopButton (buttons snapReviewed) \<and> \<not> spinnerPresent snapReviewed \<and>
   strategy1 snapReviewed = [] \<and> 5 \<le> length (strategy2 (body snapReviewed) []) \<and>
   rxMatch False reviewedRx (body snapReviewed) = Some (str ''Reviewed 4 sources'') \<and>
   status (agentStatusScript snapReviewed) = Completed \<and>
   response (agentStatusScript snapReviewed) = str ''Answer text here'' \<and>
   hasReviewedSources (body snapCopyTwice) \<and> \<not> hasWorkingText (body snapCopyTwice) \<and>
   \<not> hasActiveStopButton (buttons snapCopyTwice) \<and> \<not> spinnerPresent snapCopyTwice \<and>
   strategy1 snapCopyTwice = [] \<and>
   rxMatch False reviewedRx (body snapCopyTwice) = Some (str ''Reviewed 4 sources'') \<and>
   responseEnd2 (body snapCopyTwice) 18 43 \<and> \<not> responseEnd2 (body snapCopyTwice) 18 33 \<and>
   status (agentStatusScript snapCopyTwice) = Completed \<and>
   response (agentStatusScript snapCopyTwice) = str ''Copy this text Copy that''"
proof -
  have b: "body snapReviewed = bodyReviewed"
    by (simp add: snapReviewed_def)
  have h1: "hasReviewedSources (body snapReviewed)"
    unfolding b by (simp add: bodyReviewed_units hasReviewedSources_def reviewedRx_def str_eval)
  have h2: "\<not> hasWorkingText (body snapReviewed)"
    unfolding b by (simp add: bodyReviewed_units hasWorkingText_def workingPatterns_def str_eval)
  have h3: "\<not> hasActiveStopButton (buttons snapReviewed)" and h4: "\<not> spinnerPresent snapReviewed"
    by (simp_all add: snapReviewed_def)
  have s1: "strategy1 snapReviewed = []"
    by (simp add: strategy1_def snapReviewed_def)
  have s2: "strategy2 (body snapReviewed) [] = str ''Answer text here''"
    unfolding b by (rule reviewed_strategy2)
  have m: "rxMatch False reviewedRx (body snapReviewed) = Some (str ''Reviewed 4 sources'')"
    unfolding b by (rule reviewed_match)
  have l: "5 \<le> length (str ''Answer text here'')" and t: "take 3000 (str ''Answer text here'') = str ''Answer text here''"
    by (simp_all add: str_def)
  from C2_reviewed_sources_completed [OF h1 h2 h3 h4] s1 s2 l t
  have r1: "status (agentStatusScript snapReviewed) = Completed \<and>
        response (agentStatusScript snapReviewed) = str ''Answer text here''"
    by simp
  have b': "body snapCopyTwice = bodyCopyTwice"
    by (simp add: snapCopyTwice_def)
  have k1: "hasReviewedSources (body snapCopyTwice)"
    unfolding b' by (rule copyTwice_reviewed)
  have k2: "\<not> hasWorkingText (body snapCopyTwice)"
    unfolding b' by (rule copyTwice_noworking)
  have k3: "\<not> hasActiveStopButton (buttons snapCopyTwice)" and k4: "\<not> spinnerPresent snapCopyTwice"
    by (simp_all add: snapCopyTwice_def)
  have t1: "strategy1 snapCopyTwice = []"
    by (simp add: strategy1_def snapCopyTwice_def)
  have m': "rxMatch False reviewedRx (body snapCopyTwice) = Some (str ''Reviewed 4 sources'')"
    unfolding b' by (rule copyTwice_match)
  have e43: "responseEnd2 (body snapCopyTwice) 18 43"
    unfolding b' by (rule copyTwice_end)
  have e33: "\<not> responseEnd2 (body snapCopyTwice) 18 33"
    unfolding b' by (rule copyTwice_not33)
  have len: "length (str ''Reviewed 4 sources'') = 18"
    by (simp add: str_def)
  note main = C2_reviewed_sources_completed [OF k1 k2 k3 k4]
  from main m' obtain i e
    where o: "occursAt (str ''Reviewed 4 sources'') (body snapCopyTwice) i"
      and f: "\<forall>j < i. \<not> occursAt (str ''Reviewed 4 sources'') (body snapCopyTwice) j"
      and u: "\<forall>e'. responseEnd2 (body snapCopyTwice) (i + length (str ''Reviewed 4 sources'')) e' \<longrightarrow> e' = e"
      and s: "strategy2 (body snapCopyTwice) [] =
                trim (take (e - (i + length (str ''Reviewed 4 sources'')))
                        (drop (i + length (str ''Reviewed 4 sources'')) (body snapCopyTwice)))"
    by blast
  from f copyTwice_start have i: "i = 0"
    unfolding b' by (cases i) auto
  from u e43 have e: "e = 43"
    unfolding i len by auto
  from s have "strategy2 (body snapCopyTwice) [] = trim (take (43 - 18) (drop 18 bodyCopyTwice))"
    by (simp add: i e len b')
  then have t2: "strategy2 (body snapCopyTwice) [] = str ''Copy this text Copy that''"
    using copyTwice_text by (rule trans)
  have l': "5 \<le> length (str ''Copy this text Copy that'')"
    and t': "take 3000 (str ''Copy this text Copy that'') = str ''Copy this text Copy that''"
    by (simp_all add: str_def)
  from main t1 t2 l' t'
  have r2: "status (agentStatusScript snapCopyTwice) = Completed \<and>
        response (agentStatusScript snapCopyTwice) = str ''Copy this text Copy that''"
    by simp
  from h1 h2 h3 h4 s1 s2 l m r1 k1 k2 k3 k4 t1 m' e43 e33 r2 show ?thesis
    by simp
qed




text \<open>
  C7, as stated, fails: in \<open>snapShortAnswer\<close> no prose element exists, strategy 2 yields
  the non-empty text \<open>Yes\<close>, and yet the response is the result of strategy 3, which runs
  as well because \<open>Yes\<close> has fewer than five code units.
\<close>

theorem C7_counterexample:
  "status (agentStatusScript snapShortAnswer) = Completed \<and>
   strategy1 snapShortAnswer = [] \<and>
   strategy2 (body snapShortAnswer) [] = str ''Yes'' \<and>
   response (agentStatusScript snapShortAnswer) = str ''Reviewed 2 sources'' @ [10] @ str ''Yes''"
proof -
  have b: "body snapShortAnswer = bodyShortAnswer"
    by (simp add: snapShortAnswer_def)
  have s1: "strategy1 snapShortAnswer = []"
    by (simp add: strategy1_def snapShortAnswer_def)
  have l: "\<not> 5 \<le> length (str ''Yes'')"
    by (simp add: str_def)
  have r: "response (agentStatusScript snapShortAnswer) = take 3000 (strategy3 bodyShortAnswer [])"
    using l shortAnswer_marker
    by (simp add: agentStatusScript_response agentStatusScript_status shortAnswer_status s1 b
        shortAnswer_strategy2)
  have t: "take 3000 (strategy3 bodyShortAnswer []) = str ''Reviewed 2 sources'' @ [10] @ str ''Yes''"
    by (simp add: shortAnswer_strategy3 str_def)
  have e: "response (agentStatusScript snapShortAnswer) = str ''Reviewed 2 sources'' @ [10] @ str ''Yes''"
    using r t by (rule trans)
  have c: "status (agentStatusScript snapShortAnswer) = Completed"
    by (simp add: agentStatusScript_status shortAnswer_status)
  have s2: "strategy2 (body snapShortAnswer) [] = str ''Yes''"
    unfolding b by (rule shortAnswer_strategy2)
  show ?thesis
    using c s1 s2 e by (intro conjI)
qed

text \<open>
  C7, amended. The response is extracted only when the status is \<open>completed\<close>, and it is
  cut to 3000 code units. Strategy 1 (the last prose element) wins when it finds a text;
  otherwise strategy 2 (the text after \<open>Reviewed N sources\<close>) wins when its text has at
  least five code units; otherwise strategy 3 (the text after \<open>steps completed\<close>)
  replaces the result when the body holds \<open>steps completed\<close>, and the result of
  strategy 2 stays when it does not.
\<close>

theorem C7_response_strategies:
  "response (agentStatusScript snap) =
     (if status (agentStatusScript snap) = Completed
      then take 3000
        (if strategy1 snap \<noteq> [] then strategy1 snap
         else if 5 \<le> length (strategy2 (body snap) []) then strategy2 (body snap) []
         else if includesStr (body snap) (str ''steps completed'') then strategy3 (body snap) []
         else strategy2 (body snap) [])
      else []) \<and>
   length (response (agentStatusScript snap)) \<le> 3000"
proof -
  have r: "response (agentStatusScript snap) =
     (if status (agentStatusScript snap) = Completed
      then take 3000
        (if strategy1 snap \<noteq> [] then strategy1 snap
         else if 5 \<le> length (strategy2 (body snap) []) then strategy2 (body snap) []
         else if includesStr (body snap) (str ''steps completed'') then strategy3 (body snap) []
         else strategy2 (body snap) [])
      else [])"
    by (rule agentStatusScript_response)
  have "length (response (agentStatusScript snap)) \<le> 3000"
    by (subst r) simp
  with r show ?thesis by simp
qed

text \<open>A snapshot that is not \<open>completed\<close> has the empty response.\<close>

theorem C7_witness:
  "status (agentStatusScript snapIdle) = Idle \<and> response (agentStatusScript snapIdle) = []"
  using C7_response_strategies [of snapIdle]
  by (simp add: agentStatusScript_status idle_status)

section \<open>Facts about the handlers\<close>

lemma trim_empty_iff: "trim s = [] \<longleftrightarrow> (\<forall>c \<in> set s. isWhiteSpace c)"
proof
  assume "trim s = []"
  then have h: "\<forall>c \<in> set (dropWhile isWhiteSpace s). isWhiteSpace c"
    by (simp add: trim_def)
  have "dropWhile isWhiteSpace s = []"
  proof (rule ccontr)
    assume n: "dropWhile isWhiteSpace s \<noteq> []"
    then have "\<not> isWhiteSpace (hd (dropWhile isWhiteSpace s))"
      by (rule hd_dropWhile)
    moreover have "hd (dropWhile isWhiteSpace s) \<in> set (dropWhile isWhiteSpace s)"
      using n by simp
    ultimately show False using h by blast
  qed
  then show "\<forall>c \<in> set s. isWhiteSpace c"
    by simp
next
  assume "\<forall>c \<in> set s. isWhiteSpace c"
  then show "trim s = []"
    by (auto simp: trim_def dest: set_dropWhileD)
qed

lemma askStart_blank:
  assumes "prompt args = None \<or> (\<exists>p. prompt args = Some p \<and> (\<forall>c \<in> set p. isWhiteSpace c))"
  shows "askStart E args w = (Early (textResult (str ''Error: prompt cannot be empty'')), w)"
proof (cases "prompt args")
  case None
  then show ?thesis by (simp add: askStart_def)
next
  case (Some p)
  with assms have "\<forall>c \<in> set p. isWhiteSpace c" by simp
  then have "trim p = []" by (simp add: trim_empty_iff)
  with Some show ?thesis by (simp add: askStart_def)
qed

lemma tool_names_distinct:
  "str ''comet_ask'' \<noteq> str ''comet_connect''"
  "str ''comet_poll'' \<noteq> str ''comet_connect''"
  "str ''comet_poll'' \<noteq> str ''comet_ask''"
  "str ''comet_screenshot'' \<noteq> str ''comet_connect''"
  "str ''comet_screenshot'' \<noteq> str ''comet_ask''"
  "str ''comet_screenshot'' \<noteq> str ''comet_poll''"
  "str ''comet_screenshot'' \<noteq> str ''comet_stop''"
  by (simp_all add: str_def)

lemma handleTool_ask: "handleTool E fuel (str ''comet_ask'') args w = cometAsk E fuel args w"
  by (simp add: handleTool_def tool_names_distinct)

lemma handleTool_screenshot:
  "handleTool E fuel (str ''comet_screenshot'') args w = Some (cometScreenshot E args w)"
  by (simp add: handleTool_def tool_names_distinct)

lemma handleTool_poll: "handleTool E fuel (str ''comet_poll'') args w = Some (cometPoll E w)"
  by (simp add: handleTool_def tool_names_distinct)

subsection \<open>The log closure\<close>

lemma dateNow_eq: "dateNow E w = (onNow E (hist w @ [DateNow]), w\<lparr>hist := hist w @ [DateNow]\<rparr>)"
  by (simp add: dateNow_def perform_def)

lemma logMsg_eq:
  "logMsg E t m (st, w) =
     (st\<lparr>progressLog := progressLog st @
          [logLine (roundSeconds (onNow E (hist w @ [DateNow]) - t)) m]\<rparr>,
      w\<lparr>hist := hist w @ [DateNow,
          ConsoleError (logLine (roundSeconds (onNow E (hist w @ [DateNow]) - t)) m)]\<rparr>)"
  by (simp add: logMsg_def dateNow_eq perform_def Let_def)

lemma logMsg_saw [simp]: "sawWorkingState (fst (logMsg E t m sw)) = sawWorkingState (fst sw)"
  by (cases sw) (simp add: logMsg_eq)

lemma logMsg_seen [simp]: "seenSteps (fst (logMsg E t m sw)) = seenSteps (fst sw)"
  by (cases sw) (simp add: logMsg_eq)

lemma logMsg_log:
  "progressLog (fst (logMsg E t m sw)) =
     progressLog (fst sw) @ [logLine (roundSeconds (onNow E (hist (snd sw) @ [DateNow]) - t)) m]"
  by (cases sw) (simp add: logMsg_eq)

lemma logMsg_hist:
  "hist (snd (logMsg E t m sw)) =
     hist (snd sw) @ [DateNow, ConsoleError (logLine (roundSeconds (onNow E (hist (snd sw) @ [DateNow]) - t)) m)]"
  by (cases sw) (simp add: logMsg_eq)

subsection \<open>The flag \<open>sawWorkingState\<close>\<close>

lemma logNewSteps_saw [simp]:
  "sawWorkingState (fst (logNewSteps E t ss sw)) = sawWorkingState (fst sw)"
  by (induction ss arbitrary: sw) simp_all

lemma logUrlChange_saw [simp]:
  "sawWorkingState (fst (logUrlChange E t s sw)) = sawWorkingState (fst sw)"
  by (simp add: logUrlChange_def)

lemma trackWorking_saw:
  "sawWorkingState (fst (trackWorking E t s sw)) = (sawWorkingState (fst sw) \<or> status s = Working)"
  by (simp add: trackWorking_def Let_def)

lemma pollLogging_saw:
  "sawWorkingState (fst (pollLogging E t s sw)) = (sawWorkingState (fst sw) \<or> status s = Working)"
  by (simp add: pollLogging_def trackWorking_saw)

lemma pollDecide_saw:
  "sawWorkingState (fst (snd (pollDecide E t s sw))) = sawWorkingState (fst sw)"
  by (simp add: pollDecide_def Let_def split_def)

lemma pollBody_saw:
  "sawWorkingState (fst (snd (pollBody E t s sw))) = (sawWorkingState (fst sw) \<or> status s = Working)"
  by (simp add: pollBody_def pollDecide_saw pollLogging_saw)

lemma pollDecide_returns:
  assumes "pollDecide E t s sw = (Some res, st', w')"
  shows "status s = Completed \<and> res = completedOutput s \<and>
         (sawWorkingState (fst sw) \<or> 10000 < graceReading E w' - t)"
proof (cases "status s = Completed \<and> sawWorkingState (fst sw)")
  case True
  with assms show ?thesis by (auto simp: pollDecide_def Let_def split_def)
next
  case False
  show ?thesis
  proof (cases "status s = Completed")
    case c: True
    with False have n: "\<not> sawWorkingState (fst sw)" by simp
    from assms c n have g: "10000 < onNow E (hist (snd sw) @ [DateNow]) - t"
      by (auto simp: pollDecide_def Let_def split_def dateNow_eq split: if_splits)
    from assms c n g have w: "w' = snd (logMsg E t (checkMark @ str '' Task completed (quick response)'')
                                (fst sw, (snd sw)\<lparr>hist := hist (snd sw) @ [DateNow]\<rparr>))"
      and r: "res = completedOutput s"
      by (auto simp: pollDecide_def Let_def split_def dateNow_eq split: if_splits)
    have "butlast (butlast (hist w')) = hist (snd sw) @ [DateNow]"
      unfolding w by (simp add: logMsg_hist butlast_append)
    then have "graceReading E w' = onNow E (hist (snd sw) @ [DateNow])"
      by (simp add: graceReading_def)
    with g c r show ?thesis by simp
  next
    case False
    with assms show ?thesis by (simp add: pollDecide_def)
  qed
qed

lemma pollDecide_waits:
  assumes "status s = Completed" and "\<not> sawWorkingState (fst sw)"
    and "fst (dateNow E (snd sw)) - t \<le> 10000"
  shows "pollDecide E t s sw = (None, fst sw, snd (dateNow E (snd sw)))"
  using assms by (simp add: pollDecide_def Let_def split_def)

lemma pollBody_returns:
  assumes "pollBody E t s (st, w) = (Some res, st', w')"
  shows "status s = Completed \<and> res = completedOutput s \<and>
         (sawWorkingState st \<or> 10000 < graceReading E w' - t)"
proof -
  from assms have d: "pollDecide E t s (pollLogging E t s (st, w)) = (Some res, st', w')"
    by (simp add: pollBody_def)
  from pollDecide_returns [OF d]
  have c: "status s = Completed" and r: "res = completedOutput s"
    and g: "sawWorkingState (fst (pollLogging E t s (st, w))) \<or> 10000 < graceReading E w' - t"
    by simp_all
  from g c have "sawWorkingState st \<or> 10000 < graceReading E w' - t"
    by (simp add: pollLogging_saw)
  with c r show ?thesis by simp
qed

declare pollLoop.simps [simp del]

lemma pollLoop_Suc:
  "pollLoop E t tmo (Suc fuel) st obs w =
     (if onNow E (hist w @ [DateNow]) - t < tmo
      then (case getAgentStatus E (sleep 2000 (w\<lparr>hist := hist w @ [DateNow]\<rparr>)) of
              (Inl e, w3) \<Rightarrow> Some (Threw e, st, obs, w3)
            | (Inr s, w3) \<Rightarrow>
                (case pollBody E t s (st, w3) of
                   (Some res, st', w4) \<Rightarrow> Some (Returned res, st', obs @ [s], w4)
                 | (None, st', w4) \<Rightarrow> pollLoop E t tmo fuel st' (obs @ [s]) w4))
      else Some (DeadlineReached, st, obs, w\<lparr>hist := hist w @ [DateNow]\<rparr>))"
  by (simp add: pollLoop.simps dateNow_eq Let_def split: prod.splits sum.splits)

lemma pollLoop_guard:
  assumes "pollLoop E t tmo fuel st obs w = Some (ex, st', obs', w')"
    and "sawWorkingState st \<longrightarrow> (\<exists>s \<in> set obs. status s = Working)"
  shows "(sawWorkingState st' \<longrightarrow> (\<exists>s \<in> set obs'. status s = Working)) \<and>
         (\<forall>res. ex = Returned res \<longrightarrow>
            obs' \<noteq> [] \<and> status (last obs') = Completed \<and> res = completedOutput (last obs') \<and>
            ((\<exists>s \<in> set (butlast obs'). status s = Working) \<or> 10000 < graceReading E w' - t))"
  using assms
proof (induction fuel arbitrary: st obs w)
  case 0
  then show ?case by (simp add: pollLoop.simps)
next
  case (Suc fuel)
  show ?case
  proof (cases "onNow E (hist w @ [DateNow]) - t < tmo")
    case False
    with Suc.prems show ?thesis by (auto simp: pollLoop_Suc)
  next
    case True
    obtain r w3 where g: "getAgentStatus E (sleep 2000 (w\<lparr>hist := hist w @ [DateNow]\<rparr>)) = (r, w3)"
      by (cases "getAgentStatus E (sleep 2000 (w\<lparr>hist := hist w @ [DateNow]\<rparr>))")
    show ?thesis
    proof (cases r)
      case (Inl e)
      with Suc.prems True g show ?thesis by (auto simp: pollLoop_Suc)
    next
      case (Inr s)
      obtain ores st1 w4 where b: "pollBody E t s (st, w3) = (ores, st1, w4)"
        by (cases "pollBody E t s (st, w3)")
      have sw: "sawWorkingState st1 = (sawWorkingState st \<or> status s = Working)"
        using pollBody_saw [of E t s "(st, w3)"] b by simp
      have inv: "sawWorkingState st1 \<longrightarrow> (\<exists>x \<in> set (obs @ [s]). status x = Working)"
        using sw Suc.prems(2) by auto
      show ?thesis
      proof (cases ores)
        case None
        with Suc.prems(1) True g Inr b
        have "pollLoop E t tmo fuel st1 (obs @ [s]) w4 = Some (ex, st', obs', w')"
          by (simp add: pollLoop_Suc)
        from Suc.IH [OF this inv] show ?thesis .
      next
        case (Some res)
        with Suc.prems(1) True g Inr b
        have e: "ex = Returned res" "st' = st1" "obs' = obs @ [s]" "w' = w4"
          by (simp_all add: pollLoop_Suc)
        from b Some have "pollBody E t s (st, w3) = (Some res, st1, w4)" by simp
        from pollBody_returns [OF this]
        have c: "status s = Completed" and rr: "res = completedOutput s"
          and gg: "sawWorkingState st \<or> 10000 < graceReading E w4 - t"
          by simp_all
        from gg Suc.prems(2)
        have "(\<exists>x \<in> set obs. status x = Working) \<or> 10000 < graceReading E w4 - t"
          by auto
        with e c rr inv show ?thesis by simp
      qed
    qed
  qed
qed

subsection \<open>The step entries of the log\<close>

declare showNat.simps [simp del]

lemma showNat_digits: "c \<in> set (showNat n) \<Longrightarrow> 48 \<le> c \<and> c \<le> 57"
proof (induction n arbitrary: c rule: showNat.induct)
  case (1 n)
  show ?case
  proof (cases "n < 10")
    case True
    with "1.prems" show ?thesis by (subst (asm) showNat.simps) simp
  next
    case False
    from "1.prems" have "c \<in> set (showNat (n div 10)) \<or> c = 48 + n mod 10"
      using False by (subst (asm) showNat.simps) auto
    then show ?thesis
    proof
      assume "c \<in> set (showNat (n div 10))"
      with "1.IH" [OF False] show ?thesis .
    next
      assume c: "c = 48 + n mod 10"
      have "n mod 10 < 10" by simp
      with c show ?thesis by linarith
    qed
  qed
qed

lemma showInt_no_s: "115 \<notin> set (showInt i)"
proof
  assume "115 \<in> set (showInt i)"
  then have "115 \<in> set (showNat (nat (- i))) \<or> 115 \<in> set (showNat (nat i))"
    by (auto simp: showInt_def split: if_splits)
  then show False using showNat_digits [of 115] by auto
qed

lemma lineMsg_logLine: "lineMsg (logLine e m) = m"
proof -
  have a: "drop 7 (logLine e m) = showInt e @ str ''s] '' @ m"
    by (simp add: logLine_def str_def)
  have b: "dropWhile (\<lambda>c. c \<noteq> 115) (showInt e @ str ''s] '' @ m) = str ''s] '' @ m"
    using showInt_no_s [of e] by (simp add: dropWhile_append str_def) 
  show ?thesis
    by (simp add: lineMsg_def a b) (simp add: str_def)
qed

lemma stepEntries_snoc:
  "stepEntries step (lg @ [logLine e m]) =
     stepEntries step lg + (if m = clipboard @ str '' '' @ step then 1 else 0)"
  by (simp add: stepEntries_def lineMsg_logLine)

lemma other_messages:
  "rocket @ m \<noteq> clipboard @ m'"
  "globe @ m \<noteq> clipboard @ m'"
  "gear @ m \<noteq> clipboard @ m'"
  "hourglass @ m \<noteq> clipboard @ m'"
  "checkMark @ m \<noteq> clipboard @ m'"
  "alarmClock @ m \<noteq> clipboard @ m'"
  by (simp_all add: rocket_def globe_def gear_def hourglass_def checkMark_def alarmClock_def
      clipboard_def)

lemma stepEntries_other:
  assumes "\<And>step. m \<noteq> clipboard @ str '' '' @ step"
  shows "stepEntries step (progressLog (fst (logMsg E t m sw))) = stepEntries step (progressLog (fst sw))"
  using assms by (simp add: logMsg_log stepEntries_snoc)

lemma logMsg_other_inv:
  assumes "\<And>step. m \<noteq> clipboard @ str '' '' @ step" and "stepLogInv (fst sw)"
  shows "stepLogInv (fst (logMsg E t m sw))"
  using assms by (simp add: stepLogInv_def stepEntries_other)

lemma logNewSteps_inv:
  "stepLogInv (fst sw) \<Longrightarrow>
   stepLogInv (fst (logNewSteps E t ss sw)) \<and>
   set (seenSteps (fst (logNewSteps E t ss sw))) = set (seenSteps (fst sw)) \<union> set ss"
proof (induction ss arbitrary: sw)
  case Nil
  then show ?case by simp
next
  case (Cons x xs)
  show ?case
  proof (cases "x \<in> set (seenSteps (fst sw))")
    case True
    with Cons.IH [OF Cons.prems] show ?thesis by auto
  next
    case False
    let ?sw = "logMsg E t (clipboard @ str '' '' @ x) ((fst sw)\<lparr>seenSteps := seenSteps (fst sw) @ [x]\<rparr>, snd sw)"
    have i: "stepLogInv (fst ?sw)"
      using Cons.prems False
      by (auto simp: stepLogInv_def logMsg_log stepEntries_snoc)
    have s: "set (seenSteps (fst ?sw)) = insert x (set (seenSteps (fst sw)))"
      by simp
    from Cons.IH [OF i] s False show ?thesis by auto
  qed
qed

lemma logUrlChange_inv: "stepLogInv (fst sw) \<Longrightarrow> stepLogInv (fst (logUrlChange E t s sw))"
proof -
  assume a: "stepLogInv (fst sw)"
  have b: "stepLogInv (fst (fst sw\<lparr>lastUrl := agentBrowsingUrl s\<rparr>, snd sw))"
    using a by (simp add: stepLogInv_def)
  show ?thesis
    using a logMsg_other_inv [OF _ b] by (simp add: logUrlChange_def other_messages)
qed

lemma logUrlChange_seen [simp]: "seenSteps (fst (logUrlChange E t s sw)) = seenSteps (fst sw)"
  by (simp add: logUrlChange_def)

lemma trackWorking_seen [simp]: "seenSteps (fst (trackWorking E t s sw)) = seenSteps (fst sw)"
  by (simp add: trackWorking_def Let_def)

lemma trackWorking_inv: "stepLogInv (fst sw) \<Longrightarrow> stepLogInv (fst (trackWorking E t s sw))"
proof -
  assume a: "stepLogInv (fst sw)"
  have b: "stepLogInv (fst (fst sw\<lparr>sawWorkingState := True\<rparr>, snd sw))"
    using a by (simp add: stepLogInv_def)
  let ?sw1 = "if \<not> sawWorkingState (fst sw)
              then logMsg E t (gear @ str '' Task processing...'') (fst sw\<lparr>sawWorkingState := True\<rparr>, snd sw)
              else sw"
  have c: "stepLogInv (fst ?sw1)"
    using a logMsg_other_inv [OF _ b] by (simp add: other_messages)
  have d: "stepLogInv (fst (logMsg E t (hourglass @ str '' '' @ currentStep s) ?sw1))"
    using logMsg_other_inv [OF _ c] by (simp add: other_messages)
  show ?thesis
    using a c d by (simp add: trackWorking_def Let_def)
qed

lemma pollDecide_seen [simp]: "seenSteps (fst (snd (pollDecide E t s sw))) = seenSteps (fst sw)"
  by (simp add: pollDecide_def Let_def split_def)

lemma pollDecide_inv: "stepLogInv (fst sw) \<Longrightarrow> stepLogInv (fst (snd (pollDecide E t s sw)))"
proof -
  assume a: "stepLogInv (fst sw)"
  have b: "stepLogInv (fst (logMsg E t (checkMark @ str '' Task completed'') sw))"
    using logMsg_other_inv [OF _ a] by (simp add: other_messages)
  have a': "stepLogInv (fst (fst sw, snd (dateNow E (snd sw))))"
    using a by simp
  have c: "stepLogInv (fst (logMsg E t (checkMark @ str '' Task completed (quick response)'')
             (fst sw, snd (dateNow E (snd sw)))))"
    using logMsg_other_inv [OF _ a'] by (simp add: other_messages)
  show ?thesis
    using a b c by (simp add: pollDecide_def Let_def split_def)
qed

lemma pollBody_inv:
  assumes "stepLogInv st"
  shows "stepLogInv (fst (snd (pollBody E t s (st, w)))) \<and>
         set (seenSteps (fst (snd (pollBody E t s (st, w))))) = set (seenSteps st) \<union> set (steps s)"
proof -
  have a: "stepLogInv (fst (st, w))" using assms by simp
  from logNewSteps_inv [OF a, of E t "steps s"]
  have b: "stepLogInv (fst (logNewSteps E t (steps s) (st, w)))"
    and c: "set (seenSteps (fst (logNewSteps E t (steps s) (st, w)))) = set (seenSteps st) \<union> set (steps s)"
    by simp_all
  have d: "stepLogInv (fst (pollLogging E t s (st, w)))"
    unfolding pollLogging_def using b by (intro trackWorking_inv logUrlChange_inv)
  show ?thesis
    using pollDecide_inv [OF d] c by (simp add: pollBody_def pollLogging_def)
qed

lemma pollLoop_steps:
  assumes "pollLoop E t tmo fuel st obs w = Some (ex, st', obs', w')"
    and "stepLogInv st"
    and "\<forall>s \<in> set obs. set (steps s) \<subseteq> set (seenSteps st)"
  shows "stepLogInv st' \<and> (\<forall>s \<in> set obs'. set (steps s) \<subseteq> set (seenSteps st'))"
  using assms
proof (induction fuel arbitrary: st obs w)
  case 0
  then show ?case by (simp add: pollLoop.simps)
next
  case (Suc fuel)
  show ?case
  proof (cases "onNow E (hist w @ [DateNow]) - t < tmo")
    case False
    with Suc.prems show ?thesis by (auto simp: pollLoop_Suc)
  next
    case True
    obtain r w3 where g: "getAgentStatus E (sleep 2000 (w\<lparr>hist := hist w @ [DateNow]\<rparr>)) = (r, w3)"
      by (cases "getAgentStatus E (sleep 2000 (w\<lparr>hist := hist w @ [DateNow]\<rparr>))")
    show ?thesis
    proof (cases r)
      case (Inl e)
      with Suc.prems True g show ?thesis by (auto simp: pollLoop_Suc)
    next
      case (Inr s)
      obtain ores st1 w4 where b: "pollBody E t s (st, w3) = (ores, st1, w4)"
        by (cases "pollBody E t s (st, w3)")
      from pollBody_inv [OF Suc.prems(2), of E t s w3] b
      have i: "stepLogInv st1" and u: "set (seenSteps st1) = set (seenSteps st) \<union> set (steps s)"
        by simp_all
      have o: "\<forall>x \<in> set (obs @ [s]). set (steps x) \<subseteq> set (seenSteps st1)"
        using Suc.prems(3) u by auto
      show ?thesis
      proof (cases ores)
        case None
        with Suc.prems(1) True g Inr b
        have "pollLoop E t tmo fuel st1 (obs @ [s]) w4 = Some (ex, st', obs', w')"
          by (simp add: pollLoop_Suc)
        from Suc.IH [OF this i o] show ?thesis .
      next
        case (Some res)
        with Suc.prems(1) True g Inr b
        have "st' = st1" "obs' = obs @ [s]"
          by (simp_all add: pollLoop_Suc)
        with i o show ?thesis by simp
      qed
    qed
  qed
qed

subsection \<open>The log only grows\<close>

lemma logMsg_prefix: "prefix (progressLog (fst sw)) (progressLog (fst (logMsg E t m sw)))"
  by (simp add: logMsg_log)








lemma pollLoop_deadline:
  assumes "pollLoop E t tmo fuel st obs w = Some (DeadlineReached, st', obs', w')"
  shows "tmo \<le> onNow E (hist w') - t"
  using assms
proof (induction fuel arbitrary: st obs w)
  case 0
  then show ?case by (simp add: pollLoop.simps)
next
  case (Suc fuel)
  show ?case
  proof (cases "onNow E (hist w @ [DateNow]) - t < tmo")
    case False
    with Suc.prems show ?thesis by (auto simp: pollLoop_Suc)
  next
    case True
    obtain r w3 where g: "getAgentStatus E (sleep 2000 (w\<lparr>hist := hist w @ [DateNow]\<rparr>)) = (r, w3)"
      by (cases "getAgentStatus E (sleep 2000 (w\<lparr>hist := hist w @ [DateNow]\<rparr>))")
    show ?thesis
    proof (cases r)
      case (Inl e)
      with Suc.prems True g show ?thesis by (auto simp: pollLoop_Suc)
    next
      case (Inr s)
      obtain ores st1 w4 where b: "pollBody E t s (st, w3) = (ores, st1, w4)"
        by (cases "pollBody E t s (st, w3)")
      show ?thesis
      proof (cases ores)
        case None
        with Suc.prems(1) True g Inr b
        have "pollLoop E t tmo fuel st1 (obs @ [s]) w4 = Some (DeadlineReached, st', obs', w')"
          by (simp add: pollLoop_Suc)
        from Suc.IH [OF this] show ?thesis .
      next
        case (Some res)
        with Suc.prems(1) True g Inr b show ?thesis
          by (simp add: pollLoop_Suc)
      qed
    qed
  qed
qed

subsection \<open>The loop goes on until it returns, an exception or the deadline\<close>

lemma pollLoop_obs:
  assumes "pollLoop E t tmo fuel st obs w = Some (ex, st', obs', w')"
  shows "prefix obs obs'"
  using assms
proof (induction fuel arbitrary: st obs w)
  case 0
  then show ?case by (simp add: pollLoop.simps)
next
  case (Suc fuel)
  show ?case
  proof (cases "onNow E (hist w @ [DateNow]) - t < tmo")
    case False
    with Suc.prems show ?thesis by (auto simp: pollLoop_Suc)
  next
    case True
    obtain r w3 where g: "getAgentStatus E (sleep 2000 (w\<lparr>hist := hist w @ [DateNow]\<rparr>)) = (r, w3)"
      by (cases "getAgentStatus E (sleep 2000 (w\<lparr>hist := hist w @ [DateNow]\<rparr>))")
    show ?thesis
    proof (cases r)
      case (Inl e)
      with Suc.prems True g show ?thesis by (auto simp: pollLoop_Suc)
    next
      case (Inr s)
      obtain ores st1 w4 where b: "pollBody E t s (st, w3) = (ores, st1, w4)"
        by (cases "pollBody E t s (st, w3)")
      show ?thesis
      proof (cases ores)
        case None
        with Suc.prems(1) True g Inr b
        have "pollLoop E t tmo fuel st1 (obs @ [s]) w4 = Some (ex, st', obs', w')"
          by (simp add: pollLoop_Suc)
        from Suc.IH [OF this] have "prefix (obs @ [s]) obs'" .
        then show ?thesis by (rule append_prefixD)
      next
        case (Some res)
        with Suc.prems(1) True g Inr b show ?thesis
          by (auto simp: pollLoop_Suc)
      qed
    qed
  qed
qed

lemma pollLoop_polls:
  assumes "fst (dateNow E w) - t < tmo"
    and "pollLoop E t tmo (Suc fuel) st obs w = Some (ex, st', obs', w')"
  shows "(\<exists>e. ex = Threw e) \<or>
         (\<exists>s. fst (getAgentStatus E (sleep 2000 (snd (dateNow E w)))) = Inr s \<and> prefix (obs @ [s]) obs')"
proof -
  from assms(1) have True: "onNow E (hist w @ [DateNow]) - t < tmo"
    by (simp add: dateNow_eq)
  obtain r w3 where g: "getAgentStatus E (sleep 2000 (w\<lparr>hist := hist w @ [DateNow]\<rparr>)) = (r, w3)"
    by (cases "getAgentStatus E (sleep 2000 (w\<lparr>hist := hist w @ [DateNow]\<rparr>))")
  show ?thesis
  proof (cases r)
    case (Inl e)
    with assms(2) True g show ?thesis by (auto simp: pollLoop_Suc)
  next
    case (Inr s)
    obtain ores st1 w4 where b: "pollBody E t s (st, w3) = (ores, st1, w4)"
      by (cases "pollBody E t s (st, w3)")
    have "prefix (obs @ [s]) obs'"
    proof (cases ores)
      case None
      with assms(2) True g Inr b
      have "pollLoop E t tmo fuel st1 (obs @ [s]) w4 = Some (ex, st', obs', w')"
        by (simp add: pollLoop_Suc)
      then show ?thesis by (rule pollLoop_obs)
    next
      case (Some res)
      with assms(2) True g Inr b show ?thesis
        by (auto simp: pollLoop_Suc)
    qed
    with g Inr show ?thesis by (simp add: dateNow_eq)
  qed
qed

lemma pollLoop_waits:
  assumes "fst (dateNow E w) - t < tmo"
    and "getAgentStatus E (sleep 2000 (snd (dateNow E w))) = (Inr s, w3)"
    and "status s = Completed" and "\<not> sawWorkingState st"
    and "fst (dateNow E (snd (pollLogging E t s (st, w3)))) - t \<le> 10000"
  shows "pollLoop E t tmo (Suc fuel) st obs w =
           pollLoop E t tmo fuel (fst (snd (pollBody E t s (st, w3)))) (obs @ [s])
             (snd (snd (pollBody E t s (st, w3))))"
proof -
  from assms(4) assms(3) have n: "\<not> sawWorkingState (fst (pollLogging E t s (st, w3)))"
    by (simp add: pollLogging_saw)
  from pollDecide_waits [OF assms(3) n assms(5)]
  have d: "pollBody E t s (st, w3) =
     (None, fst (pollLogging E t s (st, w3)), snd (dateNow E (snd (pollLogging E t s (st, w3)))))"
    by (simp add: pollBody_def)
  from assms(1) have g: "onNow E (hist w @ [DateNow]) - t < tmo"
    by (simp add: dateNow_eq)
  from assms(2) have a: "getAgentStatus E (sleep 2000 (w\<lparr>hist := hist w @ [DateNow]\<rparr>)) = (Inr s, w3)"
    by (simp add: dateNow_eq)
  show ?thesis
    by (subst pollLoop_Suc) (simp add: g a d)
qed

lemma pollLoop_stops:
  assumes "\<not> fst (dateNow E w) - t < tmo"
  shows "pollLoop E t tmo (Suc fuel) st obs w = Some (DeadlineReached, st, obs, snd (dateNow E w))"
  using assms by (simp add: pollLoop_Suc dateNow_eq)

subsection \<open>The timeout text holds every line of the log\<close>

lemma includesStr_mid: "includesStr (a @ p @ b) p"
proof -
  have o: "occursAt p (a @ p @ b) (length a)"
    by (simp add: occursAt_def startsWith_def)
  show ?thesis
  proof (rule ccontr)
    assume "\<not> includesStr (a @ p @ b) p"
    then have "indexOf (a @ p @ b) p (int 0) = - 1"
      by (simp add: includesStr_def)
    from indexOf_none [OF this, of "length a"] o show False by simp
  qed
qed



subsection \<open>The loop ends when the clock passes the deadline\<close>

lemma logMsg_len: "length (hist (snd sw)) \<le> length (hist (snd (logMsg E t m sw)))"
  by (simp add: logMsg_hist)

lemma logNewSteps_len: "length (hist (snd sw)) \<le> length (hist (snd (logNewSteps E t ss sw)))"
proof (induction ss arbitrary: sw)
  case Nil
  show ?case by simp
next
  case (Cons x xs)
  let ?sw = "if x \<notin> set (seenSteps (fst sw))
             then logMsg E t (clipboard @ str '' '' @ x) ((fst sw)\<lparr>seenSteps := seenSteps (fst sw) @ [x]\<rparr>, snd sw)
             else sw"
  have "length (hist (snd sw)) \<le> length (hist (snd ?sw))"
    by (simp add: logMsg_hist)
  moreover have "length (hist (snd ?sw)) \<le> length (hist (snd (logNewSteps E t xs ?sw)))"
    by (rule Cons.IH)
  ultimately show ?case
    by (simp del: logNewSteps.simps add: logNewSteps.simps(2) [of E t x xs sw])
qed

lemma logUrlChange_len: "length (hist (snd sw)) \<le> length (hist (snd (logUrlChange E t s sw)))"
  by (simp add: logUrlChange_def logMsg_hist)

lemma trackWorking_len: "length (hist (snd sw)) \<le> length (hist (snd (trackWorking E t s sw)))"
  by (simp add: trackWorking_def Let_def logMsg_hist)

lemma pollDecide_len: "length (hist (snd sw)) \<le> length (hist (snd (snd (pollDecide E t s sw))))"
  by (simp add: pollDecide_def Let_def split_def logMsg_hist dateNow_eq)

lemma pollBody_len: "length (hist w) \<le> length (hist (snd (snd (pollBody E t s (st, w)))))"
proof -
  have "length (hist w) \<le> length (hist (snd (logNewSteps E t (steps s) (st, w))))"
    using logNewSteps_len [of "(st, w)" E t "steps s"] by simp
  also have "\<dots> \<le> length (hist (snd (logUrlChange E t s (logNewSteps E t (steps s) (st, w)))))"
    by (rule logUrlChange_len)
  also have "\<dots> \<le> length (hist (snd (pollLogging E t s (st, w))))"
    unfolding pollLogging_def by (rule trackWorking_len)
  also have "\<dots> \<le> length (hist (snd (snd (pollDecide E t s (pollLogging E t s (st, w))))))"
    by (rule pollDecide_len)
  finally show ?thesis by (simp add: pollBody_def)
qed

lemma getAgentStatus_hist:
  "hist (snd (getAgentStatus E w)) = hist w @ [ListTabsCategorized, SafeEvaluate AgentStatusScript]"
  by (simp add: getAgentStatus_def callWith_def perform_def Let_def split: sum.splits)

lemma pollLoop_ends:
  assumes "\<And>h. K \<le> length h \<Longrightarrow> tmo \<le> onNow E h - t"
  shows "\<exists>fuel r. pollLoop E t tmo fuel st obs w = Some r"
proof (induction "K - length (hist w)" arbitrary: st obs w rule: less_induct)
  case less
  show ?case
  proof (cases "onNow E (hist w @ [DateNow]) - t < tmo")
    case False
    then have "pollLoop E t tmo (Suc 0) st obs w = Some (DeadlineReached, st, obs, w\<lparr>hist := hist w @ [DateNow]\<rparr>)"
      by (simp add: pollLoop_Suc)
    then show ?thesis by blast
  next
    case True
    have k: "length (hist w) < K"
    proof (rule ccontr)
      assume "\<not> length (hist w) < K"
      then have "K \<le> length (hist w @ [DateNow])" by simp
      from assms [OF this] True show False by simp
    qed
    obtain r w3 where g: "getAgentStatus E (sleep 2000 (w\<lparr>hist := hist w @ [DateNow]\<rparr>)) = (r, w3)"
      by (cases "getAgentStatus E (sleep 2000 (w\<lparr>hist := hist w @ [DateNow]\<rparr>))")
    have l3: "length (hist w) < length (hist w3)"
      using getAgentStatus_hist [of E "sleep 2000 (w\<lparr>hist := hist w @ [DateNow]\<rparr>)"] g
      by (simp add: sleep_def perform_def)
    show ?thesis
    proof (cases r)
      case (Inl e)
      with True g have "pollLoop E t tmo (Suc 0) st obs w = Some (Threw e, st, obs, w3)"
        by (simp add: pollLoop_Suc)
      then show ?thesis by blast
    next
      case (Inr s)
      obtain ores st1 w4 where b: "pollBody E t s (st, w3) = (ores, st1, w4)"
        by (cases "pollBody E t s (st, w3)")
      have l4: "length (hist w3) \<le> length (hist w4)"
        using pollBody_len [of w3 E t s st] b by simp
      show ?thesis
      proof (cases ores)
        case (Some res)
        with True g Inr b
        have "pollLoop E t tmo (Suc 0) st obs w = Some (Returned res, st1, obs @ [s], w4)"
          by (simp add: pollLoop_Suc)
        then show ?thesis by blast
      next
        case None
        have "K - length (hist w4) < K - length (hist w)"
          using k l3 l4 by linarith
        from less [OF this, of st1 "obs @ [s]"]
        obtain fuel r' where "pollLoop E t tmo fuel st1 (obs @ [s]) w4 = Some r'" by blast
        with True g Inr b None
        have "pollLoop E t tmo (Suc fuel) st obs w = Some r'"
          by (simp add: pollLoop_Suc)
        then show ?thesis by blast
      qed
    qed
  qed
qed

subsection \<open>The current-step entries of the log\<close>

lemma includesStr_logLine: "includesStr (logLine e (pre @ c)) c"
proof -
  have "logLine e (pre @ c) = (str ''[comet '' @ showInt e @ str ''s] '' @ pre) @ c @ []"
    by (simp add: logLine_def)
  then show ?thesis
    using includesStr_mid [of "str ''[comet '' @ showInt e @ str ''s] '' @ pre" c "[]"] by simp
qed

lemma trackWorking_shows:
  assumes "status s = Working" and "currentStep s \<noteq> []"
  shows "progressLog (fst (trackWorking E t s sw)) \<noteq> [] \<and>
         includesStr (last (progressLog (fst (trackWorking E t s sw)))) (currentStep s)"
proof -
  let ?sw1 = "if \<not> sawWorkingState (fst sw)
              then logMsg E t (gear @ str '' Task processing...'') (fst sw\<lparr>sawWorkingState := True\<rparr>, snd sw)
              else sw"
  have tw: "trackWorking E t s sw =
      (if currentStep s \<noteq> [] \<and>
          \<not> (progressLog (fst ?sw1) \<noteq> [] \<and> includesStr (last (progressLog (fst ?sw1))) (currentStep s))
       then logMsg E t (hourglass @ str '' '' @ currentStep s) ?sw1 else ?sw1)"
    unfolding trackWorking_def Let_def by (simp only: assms(1) simp_thms if_True)
  show ?thesis
  proof (cases "progressLog (fst ?sw1) \<noteq> [] \<and> includesStr (last (progressLog (fst ?sw1))) (currentStep s)")
    case True
    then have "\<not> (currentStep s \<noteq> [] \<and>
          \<not> (progressLog (fst ?sw1) \<noteq> [] \<and> includesStr (last (progressLog (fst ?sw1))) (currentStep s)))"
      by blast
    then have eq: "trackWorking E t s sw = ?sw1"
      unfolding tw by (rule if_not_P)
    show ?thesis
      unfolding eq using True .
  next
    case False
    with assms(2) have "currentStep s \<noteq> [] \<and>
          \<not> (progressLog (fst ?sw1) \<noteq> [] \<and> includesStr (last (progressLog (fst ?sw1))) (currentStep s))"
      by blast
    then have e: "trackWorking E t s sw = logMsg E t (hourglass @ str '' '' @ currentStep s) ?sw1"
      unfolding tw by (rule if_P)
    have "includesStr (logLine x ((hourglass @ str '' '') @ currentStep s)) (currentStep s)" for x
      by (rule includesStr_logLine)
    then show ?thesis
      unfolding e by (simp add: logMsg_log)
  qed
qed

lemma pollDecide_working: "status s = Working \<Longrightarrow> pollDecide E t s sw = (None, fst sw, snd sw)"
  by (simp add: pollDecide_def)

lemma pollBody_shows:
  assumes "status s = Working" and "currentStep s \<noteq> []"
  shows "progressLog (fst (snd (pollBody E t s (st, w)))) \<noteq> [] \<and>
         includesStr (last (progressLog (fst (snd (pollBody E t s (st, w)))))) (currentStep s)"
  using trackWorking_shows [OF assms]
  by (simp add: pollBody_def pollLogging_def pollDecide_working [OF assms(1)])

lemma noStaleEntry_snoc:
  "noStaleEntry (lg @ [l]) = (noStaleEntry lg \<and> (lg \<noteq> [] \<longrightarrow> \<not> staleEntry (last lg) l))"
proof (induction lg rule: noStaleEntry.induct)
  case 1
  show ?case by simp
next
  case (2 x)
  show ?case by simp
next
  case (3 prev x ls)
  then show ?case by auto
qed

lemma not_stale:
  assumes "take 2 m \<noteq> hourglass @ str '' ''"
  shows "\<not> staleEntry prev (logLine e m)"
  using assms by (simp add: staleEntry_def lineMsg_logLine)

lemma logMsg_fresh:
  assumes "take 2 m \<noteq> hourglass @ str '' ''" and "noStaleEntry (progressLog (fst sw))"
  shows "noStaleEntry (progressLog (fst (logMsg E t m sw)))"
  using assms by (simp add: logMsg_log noStaleEntry_snoc not_stale)

lemma other_starts:
  "take 2 (clipboard @ m) \<noteq> hourglass @ str '' ''"
  "take 2 (globe @ m) \<noteq> hourglass @ str '' ''"
  "take 2 (gear @ m) \<noteq> hourglass @ str '' ''"
  "take 2 (checkMark @ m) \<noteq> hourglass @ str '' ''"
  by (simp_all add: clipboard_def globe_def gear_def checkMark_def hourglass_def str_def)

lemma logNewSteps_fresh:
  "noStaleEntry (progressLog (fst sw)) \<Longrightarrow> noStaleEntry (progressLog (fst (logNewSteps E t ss sw)))"
proof (induction ss arbitrary: sw)
  case Nil
  then show ?case by simp
next
  case (Cons x xs)
  let ?sw0 = "((fst sw)\<lparr>seenSteps := seenSteps (fst sw) @ [x]\<rparr>, snd sw)"
  show ?case
  proof (cases "x \<in> set (seenSteps (fst sw))")
    case True
    then have "logNewSteps E t (x # xs) sw = logNewSteps E t xs sw" by simp
    with Cons.IH [OF Cons.prems] show ?thesis by (simp only:)
  next
    case False
    then have e: "logNewSteps E t (x # xs) sw =
        logNewSteps E t xs (logMsg E t (clipboard @ str '' '' @ x) ?sw0)"
      by simp
    have "noStaleEntry (progressLog (fst ?sw0))"
      using Cons.prems by simp
    with other_starts(1)
    have "noStaleEntry (progressLog (fst (logMsg E t (clipboard @ str '' '' @ x) ?sw0)))"
      by (rule logMsg_fresh)
    from Cons.IH [OF this] show ?thesis
      unfolding e .
  qed
qed

lemma logUrlChange_fresh:
  assumes "noStaleEntry (progressLog (fst sw))"
  shows "noStaleEntry (progressLog (fst (logUrlChange E t s sw)))"
proof -
  have "noStaleEntry (progressLog (fst (fst sw\<lparr>lastUrl := agentBrowsingUrl s\<rparr>, snd sw)))"
    using assms by simp
  with other_starts(2)
  have "noStaleEntry (progressLog (fst (logMsg E t (globe @ str '' '' @ agentBrowsingUrl s)
          (fst sw\<lparr>lastUrl := agentBrowsingUrl s\<rparr>, snd sw))))"
    by (rule logMsg_fresh)
  with assms show ?thesis
    by (simp add: logUrlChange_def)
qed

lemma trackWorking_fresh:
  assumes "noStaleEntry (progressLog (fst sw))"
  shows "noStaleEntry (progressLog (fst (trackWorking E t s sw)))"
proof -
  let ?sw1 = "if \<not> sawWorkingState (fst sw)
              then logMsg E t (gear @ str '' Task processing...'') (fst sw\<lparr>sawWorkingState := True\<rparr>, snd sw)
              else sw"
  have "noStaleEntry (progressLog (fst (fst sw\<lparr>sawWorkingState := True\<rparr>, snd sw)))"
    using assms by simp
  with other_starts(3)
  have "noStaleEntry (progressLog (fst (logMsg E t (gear @ str '' Task processing...'')
          (fst sw\<lparr>sawWorkingState := True\<rparr>, snd sw))))"
    by (rule logMsg_fresh)
  with assms have c: "noStaleEntry (progressLog (fst ?sw1))" by simp
  have d: "noStaleEntry (progressLog (fst (logMsg E t (hourglass @ str '' '' @ currentStep s) ?sw1)))"
    if "\<not> (progressLog (fst ?sw1) \<noteq> [] \<and> includesStr (last (progressLog (fst ?sw1))) (currentStep s))"
  proof -
    have "\<not> staleEntry (last (progressLog (fst ?sw1))) (logLine x (hourglass @ str '' '' @ currentStep s))"
      if "progressLog (fst ?sw1) \<noteq> []" for x
      using that \<open>\<not> (progressLog (fst ?sw1) \<noteq> [] \<and> includesStr (last (progressLog (fst ?sw1))) (currentStep s))\<close>
      by (simp add: staleEntry_def lineMsg_logLine hourglass_def str_def)
    with c show ?thesis
      by (simp add: logMsg_log noStaleEntry_snoc)
  qed
  show ?thesis
  proof (cases "status s = Working")
    case False
    with assms show ?thesis by (simp add: trackWorking_def)
  next
    case True
    have tw: "trackWorking E t s sw =
      (if currentStep s \<noteq> [] \<and>
          \<not> (progressLog (fst ?sw1) \<noteq> [] \<and> includesStr (last (progressLog (fst ?sw1))) (currentStep s))
       then logMsg E t (hourglass @ str '' '' @ currentStep s) ?sw1 else ?sw1)"
      unfolding trackWorking_def Let_def by (simp only: True simp_thms if_True)
    show ?thesis
    proof (cases "currentStep s \<noteq> [] \<and>
        \<not> (progressLog (fst ?sw1) \<noteq> [] \<and> includesStr (last (progressLog (fst ?sw1))) (currentStep s))")
      case False
      then have eq: "trackWorking E t s sw = ?sw1"
        unfolding tw by (rule if_not_P)
      show ?thesis
        unfolding eq using c .
    next
      case t: True
      then have eq: "trackWorking E t s sw = logMsg E t (hourglass @ str '' '' @ currentStep s) ?sw1"
        unfolding tw by (rule if_P)
      from t have "noStaleEntry (progressLog (fst (logMsg E t (hourglass @ str '' '' @ currentStep s) ?sw1)))"
        by (intro d) blast
      then show ?thesis
        unfolding eq .
    qed
  qed
qed

lemma pollDecide_fresh:
  assumes "noStaleEntry (progressLog (fst sw))"
  shows "noStaleEntry (progressLog (fst (snd (pollDecide E t s sw))))"
proof -
  have b: "noStaleEntry (progressLog (fst (logMsg E t (checkMark @ str '' Task completed'') sw)))"
    using other_starts(4) assms by (rule logMsg_fresh)
  have a': "noStaleEntry (progressLog (fst (fst sw, snd (dateNow E (snd sw)))))"
    using assms by simp
  have c: "noStaleEntry (progressLog (fst (logMsg E t (checkMark @ str '' Task completed (quick response)'')
             (fst sw, snd (dateNow E (snd sw))))))"
    using other_starts(4) a' by (rule logMsg_fresh)
  show ?thesis
    using assms b c by (simp add: pollDecide_def Let_def split_def)
qed

lemma pollBody_fresh:
  assumes "noStaleEntry (progressLog st)"
  shows "noStaleEntry (progressLog (fst (snd (pollBody E t s (st, w)))))"
proof -
  have "noStaleEntry (progressLog (fst (st, w)))" using assms by simp
  then have "noStaleEntry (progressLog (fst (pollLogging E t s (st, w))))"
    unfolding pollLogging_def by (intro trackWorking_fresh logUrlChange_fresh logNewSteps_fresh)
  then show ?thesis
    unfolding pollBody_def by (rule pollDecide_fresh)
qed

lemma pollLoop_fresh:
  assumes "pollLoop E t tmo fuel st obs w = Some (ex, st', obs', w')"
    and "noStaleEntry (progressLog st)"
  shows "noStaleEntry (progressLog st')"
  using assms
proof (induction fuel arbitrary: st obs w)
  case 0
  then show ?case by (simp add: pollLoop.simps)
next
  case (Suc fuel)
  show ?case
  proof (cases "onNow E (hist w @ [DateNow]) - t < tmo")
    case False
    with Suc.prems show ?thesis by (auto simp: pollLoop_Suc)
  next
    case True
    obtain r w3 where g: "getAgentStatus E (sleep 2000 (w\<lparr>hist := hist w @ [DateNow]\<rparr>)) = (r, w3)"
      by (cases "getAgentStatus E (sleep 2000 (w\<lparr>hist := hist w @ [DateNow]\<rparr>))")
    show ?thesis
    proof (cases r)
      case (Inl e)
      with Suc.prems True g show ?thesis by (auto simp: pollLoop_Suc)
    next
      case (Inr s)
      obtain ores st1 w4 where b: "pollBody E t s (st, w3) = (ores, st1, w4)"
        by (cases "pollBody E t s (st, w3)")
      from pollBody_fresh [OF Suc.prems(2), of E t s w3] b
      have i: "noStaleEntry (progressLog st1)" by simp
      show ?thesis
      proof (cases ores)
        case None
        with Suc.prems(1) True g Inr b
        have "pollLoop E t tmo fuel st1 (obs @ [s]) w4 = Some (ex, st', obs', w')"
          by (simp add: pollLoop_Suc)
        from Suc.IH [OF this i] show ?thesis .
      next
        case (Some res)
        with Suc.prems(1) True g Inr b
        have "st' = st1"
          by (simp_all add: pollLoop_Suc)
        with i show ?thesis by simp
      qed
    qed
  qed
qed

subsection \<open>The example environments, evaluated\<close>

lemma envWith_fields [simp]:
  "onVoid (envWith snap tick) h = None"
  "onString (envWith snap tick) h = Inr (str ''ok'')"
  "onUrl (envWith snap tick) h = Inr (Some (str ''https://www.perplexity.ai/''))"
  "onSnapshot (envWith snap tick) h = Inr snap"
  "onTabs (envWith snap tick) h = Inr \<lparr> main = Some mainTarget, agentBrowsing = None \<rparr>"
  "onNow (envWith snap tick) h = tick * int (length h)"
  by (simp_all add: envWith_def)

lemma getAgentStatus_envWith:
  "getAgentStatus (envWith snap tick) w =
     (Inr (withBrowsingUrl (agentStatusScript snap) []),
      w\<lparr>hist := hist w @ [ListTabsCategorized, SafeEvaluate AgentStatusScript]\<rparr>)"
  by (simp add: getAgentStatus_def callWith_def perform_def Let_def)






lemma reviewed_script:
  "status (agentStatusScript snapReviewed) = Completed"
  "response (agentStatusScript snapReviewed) = str ''Answer text here''"
  "steps (agentStatusScript snapReviewed) = []"
proof -
  show c: "status (agentStatusScript snapReviewed) = Completed"
    by (simp add: agentStatusScript_status reviewed_status)
  have b: "body snapReviewed = bodyReviewed"
    by (simp add: snapReviewed_def)
  have s1: "strategy1 snapReviewed = []"
    by (simp add: strategy1_def snapReviewed_def)
  have l: "5 \<le> length (str ''Answer text here'')"
    and t: "take 3000 (str ''Answer text here'') = str ''Answer text here''"
    by (simp_all add: str_def)
  show "response (agentStatusScript snapReviewed) = str ''Answer text here''"
    using c s1 l t by (simp add: agentStatusScript_response b reviewed_strategy2)
  show "steps (agentStatusScript snapReviewed) = []"
    by (simp add: agentStatusScript_steps b reviewed_nosteps sliceLast_def)
qed

lemma statusReviewed_fields:
  "status statusReviewed = Completed"
  "response statusReviewed = str ''Answer text here''"
  "steps statusReviewed = []"
  "agentBrowsingUrl statusReviewed = []"
  by (simp_all add: statusReviewed_def reviewed_script)

lemma completedOutput_reviewed: "completedOutput statusReviewed = textResult (str ''Answer text here'')"
proof -
  have "str ''Answer text here'' \<noteq> []" by (simp add: str_def)
  then show ?thesis by (simp add: completedOutput_def statusReviewed_fields)
qed

lemma searching_body: "body snapSearching = [83, 101, 97, 114, 99, 104, 105, 110, 103, 32, 102, 111, 111]"
  by (simp add: snapSearching_def str_def)

lemma searching_status: "determineStatus snapSearching = Working"
proof -
  have a: "\<not> hasStepsCompleted (body snapSearching)"
    unfolding searching_body by (simp add: hasStepsCompleted_def stepsCompletedRx_def str_eval)
  have b: "\<not> hasFinishedMarker snapSearching"
    unfolding hasFinishedMarker_def searching_body by (simp add: str_eval)
  have c: "hasWorkingText (body snapSearching)"
    unfolding searching_body by (simp add: hasWorkingText_def workingPatterns_def str_eval)
  have d: "\<not> hasActiveStopButton (buttons snapSearching)" "\<not> spinnerPresent snapSearching"
    by (simp_all add: snapSearching_def)
  show ?thesis
    using a b c d by (simp add: determineStatus_def)
qed

lemma searching_steps: "extractSteps (body snapSearching) = [str ''Searching foo'']"
  unfolding searching_body by (simp add: extractSteps_def stepPatterns_def str_eval)

lemma roundSeconds_values:
  "roundSeconds 1000 = 1" "roundSeconds 5000 = 5" "roundSeconds 7000 = 7" "roundSeconds 8000 = 8"
  "roundSeconds 9000 = 9" "roundSeconds 30000 = 30"
  by (simp_all add: roundSeconds_def)

lemma searching_nonempty: "str ''Searching foo'' \<noteq> []"
  by (simp add: str_def)

lemma getAgentStatus_reviewed:
  "getAgentStatus (envWith snapReviewed tick) w =
     (Inr statusReviewed, w\<lparr>hist := hist w @ [ListTabsCategorized, SafeEvaluate AgentStatusScript]\<rparr>)"
  by (simp add: getAgentStatus_envWith statusReviewed_def)



text \<open>
  The status \<open>completed\<close> with the flag unset, at most ten seconds after the start: one
  clock reading and nothing else.
\<close>

lemma reviewed_pass:
  assumes "\<not> sawWorkingState st" and "onNow E (hist w @ [DateNow]) - t \<le> 10000"
  shows "pollBody E t statusReviewed (st, w) = (None, st, w\<lparr>hist := hist w @ [DateNow]\<rparr>)"
  using assms
  by (simp add: pollBody_def pollLogging_def pollDecide_def logUrlChange_def trackWorking_def
      statusReviewed_fields dateNow_eq Let_def)

lemma reviewed_three_polls:
  "pollLoop (envWith snapReviewed 1000) 0 300000 (Suc (Suc (Suc 0))) emptyState [] world0 =
     Some (Returned (textResult (str ''Answer text here'')),
       emptyState \<lparr> progressLog := [logLine 16 (checkMark @ str '' Task completed (quick response)'')] \<rparr>,
       [statusReviewed, statusReviewed, statusReviewed],
       \<lparr> hist = [DateNow, SetTimeout 2000, ListTabsCategorized, SafeEvaluate AgentStatusScript, DateNow,
                DateNow, SetTimeout 2000, ListTabsCategorized, SafeEvaluate AgentStatusScript, DateNow,
                DateNow, SetTimeout 2000, ListTabsCategorized, SafeEvaluate AgentStatusScript, DateNow,
                DateNow,
                ConsoleError (logLine 16 (checkMark @ str '' Task completed (quick response)''))],
         attached = None \<rparr>)"
proof -
  have n: "\<not> sawWorkingState emptyState"
    by (simp add: emptyState_def)
  have r: "roundSeconds 16000 = 16"
    by (simp add: roundSeconds_def)
  show ?thesis
    apply (subst pollLoop_Suc)
    apply (simp add: world0_def sleep_def perform_def getAgentStatus_reviewed reviewed_pass n)
    apply (subst pollLoop_Suc)
    apply (simp add: sleep_def perform_def getAgentStatus_reviewed reviewed_pass n)
    apply (subst pollLoop_Suc)
    apply (simp add: sleep_def perform_def getAgentStatus_reviewed pollBody_def
        pollLogging_def pollDecide_def logUrlChange_def trackWorking_def statusReviewed_fields
        emptyState_def logMsg_eq dateNow_eq r completedOutput_reviewed Let_def)
    done
qed

lemma reviewed_start:
  "askStart (envWith snapReviewed 1000) argsHello world0 =
     (Ready 3000 5000
        (emptyState \<lparr> progressLog := [logLine 1 (rocket @ str '' Task started'')] \<rparr>),
      \<lparr> hist = [Evaluate LocationHref, SendPrompt (str ''hello''), DateNow, DateNow,
                ConsoleError (logLine 1 (rocket @ str '' Task started''))],
        attached = None \<rparr>)"
proof -
  have p: "str ''hello'' \<noteq> []" "length (trim (str ''hello'')) \<noteq> 0"
    by (simp_all add: str_eval)
  have u: "includesStr (str ''https://www.perplexity.ai/'') (str ''perplexity.ai'')"
    by (simp add: str_eval)
  show ?thesis
    using p u
    by (simp add: askStart_def askSend_def argsHello_def noArgs_def world0_def callWith_def
        callVoid_def perform_def dateNow_eq logMsg_eq effectiveTimeout_def roundSeconds_values
        emptyState_def Let_def)
qed

lemma reviewed_short_run:
  "pollLoop (envWith snapReviewed 1000) 3000 5000 (Suc (Suc 0))
     (emptyState \<lparr> progressLog := [logLine 1 (rocket @ str '' Task started'')] \<rparr>) []
     \<lparr> hist = [Evaluate LocationHref, SendPrompt (str ''hello''), DateNow, DateNow,
               ConsoleError (logLine 1 (rocket @ str '' Task started''))],
       attached = None \<rparr> =
     Some (DeadlineReached,
       emptyState \<lparr> progressLog := [logLine 1 (rocket @ str '' Task started'')] \<rparr>,
       [statusReviewed],
       \<lparr> hist = [Evaluate LocationHref, SendPrompt (str ''hello''), DateNow, DateNow,
                ConsoleError (logLine 1 (rocket @ str '' Task started'')),
                DateNow, SetTimeout 2000, ListTabsCategorized, SafeEvaluate AgentStatusScript, DateNow,
                DateNow],
         attached = None \<rparr>)"
proof -
  have n: "\<not> sawWorkingState (emptyState \<lparr> progressLog := [logLine 1 (rocket @ str '' Task started'')] \<rparr>)"
    by (simp add: emptyState_def)
  show ?thesis
    apply (subst pollLoop_Suc)
    apply (simp add: sleep_def perform_def getAgentStatus_reviewed reviewed_pass n)
    apply (subst pollLoop_Suc)
    apply simp
    done
qed

text \<open>The run in which the URL of the agent's tab changes between two polls.\<close>

lemma envBrowsing_fields [simp]:
  "onSnapshot envBrowsing h = Inr snapSearching"
  "onNow envBrowsing h = 1000 * int (length h)"
  "onTabs envBrowsing h = Inr \<lparr> main = Some mainTarget,
     agentBrowsing = Some (agentTarget \<lparr> url := (if length h \<le> 10 then urlA else urlB) \<rparr>) \<rparr>"
  by (simp_all add: envBrowsing_def envWith_def)

lemma getAgentStatus_browsing:
  "getAgentStatus envBrowsing w =
     (Inr (statusBrowsing (if length (hist w) + 1 \<le> 10 then urlA else urlB)),
      w\<lparr>hist := hist w @ [ListTabsCategorized, SafeEvaluate AgentStatusScript]\<rparr>)"
  by (simp add: getAgentStatus_def callWith_def perform_def statusBrowsing_def Let_def)

lemma statusBrowsing_fields:
  "status (statusBrowsing u) = Working"
  "steps (statusBrowsing u) = [str ''Searching foo'']"
  "currentStep (statusBrowsing u) = str ''Searching foo''"
  "agentBrowsingUrl (statusBrowsing u) = u"
  by (simp_all add: statusBrowsing_def agentStatusScript_status searching_status
      agentStatusScript_steps agentStatusScript_currentStep searching_steps sliceLast_def)

lemma browsing_urls: "urlA \<noteq> []" "urlB \<noteq> []" "urlB \<noteq> urlA"
  by (simp_all add: urlA_def urlB_def str_def)

lemma browsing_seconds:
  "roundSeconds 11000 = 11" "roundSeconds 17000 = 17" "roundSeconds 19000 = 19"
  by (simp_all add: roundSeconds_def)

lemma browsing_lines:
  "includesStr (logLine 5 (clipboard @ str '' '' @ str ''Searching foo'')) (str ''Searching foo'')"
  "\<not> includesStr (logLine 7 (globe @ str '' '' @ urlA)) (str ''Searching foo'')"
  "\<not> includesStr (logLine 9 (gear @ str '' Task processing...'')) (str ''Searching foo'')"
  "includesStr (logLine 11 (hourglass @ str '' '' @ str ''Searching foo'')) (str ''Searching foo'')"
  "\<not> includesStr (logLine 17 (globe @ str '' '' @ urlB)) (str ''Searching foo'')"
  "includesStr (logLine 19 (hourglass @ str '' '' @ str ''Searching foo'')) (str ''Searching foo'')"
  by (simp_all add: logLine_def showInt_def showNat.simps clipboard_def globe_def gear_def
      hourglass_def urlA_def urlB_def str_eval)

lemma browsing_first_poll:
  "pollBody envBrowsing 0 (statusBrowsing urlA)
     (emptyState, \<lparr> hist = [DateNow, SetTimeout 2000, ListTabsCategorized,
                             SafeEvaluate AgentStatusScript], attached = None \<rparr>) =
     (None,
      \<lparr> progressLog = take 4 browsingLog,
        seenSteps = [str ''Searching foo''], lastUrl = urlA, sawWorkingState = True \<rparr>,
      \<lparr> hist = [DateNow, SetTimeout 2000, ListTabsCategorized, SafeEvaluate AgentStatusScript,
                DateNow, ConsoleError (logLine 5 (clipboard @ str '' '' @ str ''Searching foo'')),
                DateNow, ConsoleError (logLine 7 (globe @ str '' '' @ urlA)),
                DateNow, ConsoleError (logLine 9 (gear @ str '' Task processing...'')),
                DateNow, ConsoleError (logLine 11 (hourglass @ str '' '' @ str ''Searching foo''))],
        attached = None \<rparr>)"
  by (simp add: pollBody_def pollLogging_def pollDecide_def logUrlChange_def trackWorking_def
      statusBrowsing_fields emptyState_def logMsg_eq roundSeconds_values browsing_seconds
      browsing_lines browsing_urls searching_nonempty browsingLog_def Let_def)

lemma browsing_second_poll:
  "pollBody envBrowsing 0 (statusBrowsing urlB)
     (\<lparr> progressLog = take 4 browsingLog,
        seenSteps = [str ''Searching foo''], lastUrl = urlA, sawWorkingState = True \<rparr>,
      \<lparr> hist = [DateNow, SetTimeout 2000, ListTabsCategorized, SafeEvaluate AgentStatusScript,
                DateNow, ConsoleError (logLine 5 (clipboard @ str '' '' @ str ''Searching foo'')),
                DateNow, ConsoleError (logLine 7 (globe @ str '' '' @ urlA)),
                DateNow, ConsoleError (logLine 9 (gear @ str '' Task processing...'')),
                DateNow, ConsoleError (logLine 11 (hourglass @ str '' '' @ str ''Searching foo'')),
                DateNow, SetTimeout 2000, ListTabsCategorized, SafeEvaluate AgentStatusScript],
        attached = None \<rparr>) =
     (None,
      \<lparr> progressLog = browsingLog,
        seenSteps = [str ''Searching foo''], lastUrl = urlB, sawWorkingState = True \<rparr>,
      \<lparr> hist = [DateNow, SetTimeout 2000, ListTabsCategorized, SafeEvaluate AgentStatusScript,
                DateNow, ConsoleError (logLine 5 (clipboard @ str '' '' @ str ''Searching foo'')),
                DateNow, ConsoleError (logLine 7 (globe @ str '' '' @ urlA)),
                DateNow, ConsoleError (logLine 9 (gear @ str '' Task processing...'')),
                DateNow, ConsoleError (logLine 11 (hourglass @ str '' '' @ str ''Searching foo'')),
                DateNow, SetTimeout 2000, ListTabsCategorized, SafeEvaluate AgentStatusScript,
                DateNow, ConsoleError (logLine 17 (globe @ str '' '' @ urlB)),
                DateNow, ConsoleError (logLine 19 (hourglass @ str '' '' @ str ''Searching foo''))],
        attached = None \<rparr>)"
  by (simp add: pollBody_def pollLogging_def pollDecide_def logUrlChange_def trackWorking_def
      statusBrowsing_fields logMsg_eq browsing_seconds
      browsing_lines browsing_urls searching_nonempty browsingLog_def Let_def)

lemma browsing_run:
  "pollLoop envBrowsing 0 20000 (Suc (Suc (Suc 0))) emptyState [] world0 =
     Some (DeadlineReached,
       \<lparr> progressLog = browsingLog,
         seenSteps = [str ''Searching foo''], lastUrl = urlB, sawWorkingState = True \<rparr>,
       [statusBrowsing urlA, statusBrowsing urlB],
       \<lparr> hist = [DateNow, SetTimeout 2000, ListTabsCategorized, SafeEvaluate AgentStatusScript,
                DateNow, ConsoleError (logLine 5 (clipboard @ str '' '' @ str ''Searching foo'')),
                DateNow, ConsoleError (logLine 7 (globe @ str '' '' @ urlA)),
                DateNow, ConsoleError (logLine 9 (gear @ str '' Task processing...'')),
                DateNow, ConsoleError (logLine 11 (hourglass @ str '' '' @ str ''Searching foo'')),
                DateNow, SetTimeout 2000, ListTabsCategorized, SafeEvaluate AgentStatusScript,
                DateNow, ConsoleError (logLine 17 (globe @ str '' '' @ urlB)),
                DateNow, ConsoleError (logLine 19 (hourglass @ str '' '' @ str ''Searching foo'')),
                DateNow],
         attached = None \<rparr>)"
  apply (subst pollLoop_Suc)
  apply (simp add: world0_def sleep_def perform_def getAgentStatus_browsing browsing_first_poll)
  apply (subst pollLoop_Suc)
  apply (simp add: sleep_def perform_def getAgentStatus_browsing browsing_second_poll)
  apply (subst pollLoop_Suc)
  apply simp
  done

lemma browsing_count: "textEntries (str ''Searching foo'') browsingLog = 3"
  by (simp add: textEntries_def browsingLog_def browsing_lines)

lemma browsing_count_first: "textEntries (str ''Searching foo'') (take 4 browsingLog) = 2"
  by (simp add: textEntries_def browsingLog_def browsing_lines)

section \<open>Claims about the handlers\<close>

text \<open>
  C10. A \<open>comet_ask\<close> call whose prompt is missing, empty or made of white space only
  returns the text \<open>Error: prompt cannot be empty\<close> at once: no call to the browser or
  to the clock is made (the history and the attachment are those before the call), and no
  fuel is needed. The same holds through the dispatcher.
\<close>

theorem C10_empty_prompt_rejected:
  assumes "prompt args = None \<or> (\<exists>p. prompt args = Some p \<and> (\<forall>c \<in> set p. isWhiteSpace c))"
  shows "cometAsk E fuel args w = Some (Inr (textResult (str ''Error: prompt cannot be empty'')), w) \<and>
         callTool E fuel (str ''comet_ask'') args w =
           Some (\<lparr> content = [TextContent (str ''Error: prompt cannot be empty'')], isError = False \<rparr>, w)"
proof -
  have a: "cometAsk E fuel args w = Some (Inr (textResult (str ''Error: prompt cannot be empty'')), w)"
    by (simp add: cometAsk_def askStart_blank [OF assms])
  then show ?thesis
    by (simp add: callTool_def handleTool_ask textResult_def)
qed

text \<open>A missing prompt, the empty prompt, and a prompt of a space, a tab and a line feed.\<close>

theorem C10_witness:
  "cometAsk (envWith snapIdle 1000) 0 noArgs world0 =
     Some (Inr (textResult (str ''Error: prompt cannot be empty'')), world0) \<and>
   cometAsk (envWith snapIdle 1000) 0 (noArgs \<lparr> prompt := Some [] \<rparr>) world0 =
     Some (Inr (textResult (str ''Error: prompt cannot be empty'')), world0) \<and>
   cometAsk (envWith snapIdle 1000) 0 (noArgs \<lparr> prompt := Some [32, 9, 10] \<rparr>) world0 =
     Some (Inr (textResult (str ''Error: prompt cannot be empty'')), world0)"
proof -
  have a: "prompt noArgs = None \<or> (\<exists>p. prompt noArgs = Some p \<and> (\<forall>c \<in> set p. isWhiteSpace c))"
    by (simp add: noArgs_def)
  have b: "prompt (noArgs \<lparr> prompt := Some [] \<rparr>) = None \<or>
           (\<exists>p. prompt (noArgs \<lparr> prompt := Some [] \<rparr>) = Some p \<and> (\<forall>c \<in> set p. isWhiteSpace c))"
    by simp
  have c: "prompt (noArgs \<lparr> prompt := Some [32, 9, 10] \<rparr>) = None \<or>
           (\<exists>p. prompt (noArgs \<lparr> prompt := Some [32, 9, 10] \<rparr>) = Some p \<and>
                (\<forall>c \<in> set p. isWhiteSpace c))"
    by (simp add: isWhiteSpace_def)
  from C10_empty_prompt_rejected [OF a] C10_empty_prompt_rejected [OF b]
    C10_empty_prompt_rejected [OF c]
  show ?thesis by blast
qed

text \<open>
  C9. Whatever the tool and its arguments, an exception thrown while the call is handled
  is caught by the dispatcher, which returns one text item \<open>Error:\<close> with the message,
  and \<open>isError\<close> set.
\<close>

theorem C9_exception_becomes_error_result:
  assumes "handleTool E fuel name args w = Some (Inl e, w')"
  shows "callTool E fuel name args w =
           Some (\<lparr> content = [TextContent (str ''Error: '' @ exnText e)], isError = True \<rparr>, w')"
  using assms by (simp add: callTool_def errorResult_def)

text \<open>A screenshot that fails, and a tool that does not exist.\<close>

theorem C9_witness:
  "handleTool envShotFails 0 (str ''comet_screenshot'') noArgs world0 =
     Some (Inl (Error (str ''capture failed'')), world0 \<lparr> hist := [Screenshot (str ''png'')] \<rparr>) \<and>
   callTool envShotFails 0 (str ''comet_screenshot'') noArgs world0 =
     Some (\<lparr> content = [TextContent (str ''Error: '' @ str ''capture failed'')], isError = True \<rparr>,
           world0 \<lparr> hist := [Screenshot (str ''png'')] \<rparr>) \<and>
   handleTool envShotFails 0 (str ''comet_fly'') noArgs world0 =
     Some (Inl (Error (str ''Unknown tool: '' @ str ''comet_fly'')), world0) \<and>
   callTool envShotFails 0 (str ''comet_fly'') noArgs world0 =
     Some (\<lparr> content = [TextContent (str ''Error: '' @ (str ''Unknown tool: '' @ str ''comet_fly''))],
             isError = True \<rparr>, world0)"
proof -
  have a: "handleTool envShotFails 0 (str ''comet_screenshot'') noArgs world0 =
     Some (Inl (Error (str ''capture failed'')), world0 \<lparr> hist := [Screenshot (str ''png'')] \<rparr>)"
    by (simp add: handleTool_screenshot cometScreenshot_def noArgs_def bindP_def callWith_def
        perform_def envShotFails_def world0_def)
  have n: "str ''comet_fly'' \<noteq> str ''comet_connect''" "str ''comet_fly'' \<noteq> str ''comet_ask''"
    "str ''comet_fly'' \<noteq> str ''comet_poll''" "str ''comet_fly'' \<noteq> str ''comet_stop''"
    "str ''comet_fly'' \<noteq> str ''comet_screenshot''" "str ''comet_fly'' \<noteq> str ''comet_mode''"
    by (simp_all add: str_def)
  have b: "handleTool envShotFails 0 (str ''comet_fly'') noArgs world0 =
     Some (Inl (Error (str ''Unknown tool: '' @ str ''comet_fly'')), world0)"
    by (simp add: handleTool_def n throwP_def)
  from C9_exception_becomes_error_result [OF a] C9_exception_becomes_error_result [OF b] a b
  show ?thesis by simp
qed

text \<open>
  C8, as stated, fails: when the capture throws after the agent tab has been attached,
  the handler does not attach the main tab again. In \<open>envShotFails\<close> the session is on
  the main tab before the call and on the agent tab after it.
\<close>

theorem C8_counterexample:
  "agent_tab argsAgentTab = Some True \<and>
   onTabs envShotFails (hist worldOnMain @ [ListTabsCategorized]) =
     Inr \<lparr> main = Some mainTarget, agentBrowsing = Some agentTarget \<rparr> \<and>
   attached worldOnMain = Some (targetId mainTarget) \<and>
   fst (cometScreenshot envShotFails argsAgentTab worldOnMain) = Inl (Error (str ''capture failed'')) \<and>
   attached (snd (cometScreenshot envShotFails argsAgentTab worldOnMain)) = Some (targetId agentTarget) \<and>
   targetId agentTarget \<noteq> targetId mainTarget"
proof -
  have d: "targetId agentTarget \<noteq> targetId mainTarget"
    by (simp add: agentTarget_def mainTarget_def str_def)
  have c: "cometScreenshot envShotFails argsAgentTab worldOnMain =
     (Inl (Error (str ''capture failed'')),
      \<lparr> hist = [ListTabsCategorized, Connect (targetId agentTarget), Screenshot (str ''png'')],
        attached = Some (targetId agentTarget) \<rparr>)"
    by (simp add: cometScreenshot_def argsAgentTab_def noArgs_def bindP_def callWith_def connect_def
        perform_def envShotFails_def envAgentTab_def envWith_def worldOnMain_def Let_def)
  show ?thesis
    using c d
    by (simp add: argsAgentTab_def noArgs_def envShotFails_def envAgentTab_def worldOnMain_def
        mainTarget_def)
qed

text \<open>
  C8, amended. When \<open>agent_tab\<close> is true, an agent tab exists, a main tab is identified
  and the handler returns (neither the two attachments nor the capture throws), the
  calls it has made are the tab listing, the attachment of the agent tab, the capture
  and the attachment of the main tab, in this order; the session is attached to the main
  tab afterwards, and the result holds the agent tab's URL and the image.
\<close>

theorem C8_screenshot_restores_main:
  assumes "agent_tab args = Some True"
    and "onTabs E (hist w @ [ListTabsCategorized]) = Inr t"
    and "agentBrowsing t = Some a"
    and "main t = Some m"
    and "cometScreenshot E args w = (Inr res, w')"
  shows "attached w' = Some (targetId m) \<and>
         hist w' = hist w @ [ListTabsCategorized, Connect (targetId a), Screenshot (str ''png''),
                             Connect (targetId m)] \<and>
         (\<exists>shot. onString E (hist w @ [ListTabsCategorized, Connect (targetId a),
                                        Screenshot (str ''png'')]) = Inr shot \<and>
            res = \<lparr> content = [TextContent (str ''Agent browsing: '' @ url a),
                                ImageContent shot (str ''image/png'')], isError = False \<rparr>)"
  using assms
  by (auto simp: cometScreenshot_def bindP_def returnP_def callWith_def connect_def perform_def Let_def
      split: sum.splits option.splits prod.splits)

theorem C8_witness:
  "agent_tab argsAgentTab = Some True \<and>
   onTabs envAgentTab (hist worldOnMain @ [ListTabsCategorized]) =
     Inr \<lparr> main = Some mainTarget, agentBrowsing = Some agentTarget \<rparr> \<and>
   fst (cometScreenshot envAgentTab argsAgentTab worldOnMain) =
     Inr \<lparr> content = [TextContent (str ''Agent browsing: '' @ url agentTarget),
                       ImageContent (str ''ok'') (str ''image/png'')], isError = False \<rparr> \<and>
   attached (snd (cometScreenshot envAgentTab argsAgentTab worldOnMain)) = Some (targetId mainTarget) \<and>
   hist (snd (cometScreenshot envAgentTab argsAgentTab worldOnMain)) =
     [ListTabsCategorized, Connect (targetId agentTarget), Screenshot (str ''png''),
      Connect (targetId mainTarget)]"
proof -
  have a: "agent_tab argsAgentTab = Some True"
    by (simp add: argsAgentTab_def)
  have b: "onTabs envAgentTab (hist worldOnMain @ [ListTabsCategorized]) =
     Inr \<lparr> main = Some mainTarget, agentBrowsing = Some agentTarget \<rparr>"
    by (simp add: envAgentTab_def)
  have c: "fst (cometScreenshot envAgentTab argsAgentTab worldOnMain) =
     Inr \<lparr> content = [TextContent (str ''Agent browsing: '' @ url agentTarget),
                       ImageContent (str ''ok'') (str ''image/png'')], isError = False \<rparr>"
    by (simp add: cometScreenshot_def argsAgentTab_def noArgs_def bindP_def returnP_def callWith_def
        connect_def perform_def envAgentTab_def envWith_def worldOnMain_def Let_def)
  then have d: "cometScreenshot envAgentTab argsAgentTab worldOnMain =
     (Inr \<lparr> content = [TextContent (str ''Agent browsing: '' @ url agentTarget),
                        ImageContent (str ''ok'') (str ''image/png'')], isError = False \<rparr>,
      snd (cometScreenshot envAgentTab argsAgentTab worldOnMain))"
    by (simp add: prod_eq_iff)
  have e: "hist worldOnMain = []"
    by (simp add: worldOnMain_def)
  from C8_screenshot_restores_main [OF a b _ _ d, of agentTarget mainTarget] a b c e
  show ?thesis by simp
qed

text \<open>
  The state and the world that the handler hands to the loop: nothing seen yet, nothing
  but the first line in the log.
\<close>

lemma askStart_ready:
  assumes "askStart E args w = (Ready t tmo st1, w1)"
  shows "\<not> sawWorkingState st1 \<and> seenSteps st1 = [] \<and> stepLogInv st1 \<and> tmo = effectiveTimeout args"
proof -
  obtain p where p: "prompt args = Some p"
    using assms by (cases "prompt args") (simp_all add: askStart_def)
  from assms p have s: "askSend E args p w = (Ready t tmo st1, w1)"
    by (simp add: askStart_def split: if_splits)
  then obtain t' w' where st1: "st1 = fst (logMsg E t' (rocket @ str '' Task started'') (emptyState, w'))"
    and tmo: "tmo = effectiveTimeout args"
    by (auto simp: askSend_def Let_def split_def emptyState_def split: sum.splits prod.splits if_splits)
  have i: "stepLogInv (fst (emptyState, w'))"
    by (simp add: stepLogInv_def stepEntries_def emptyState_def)
  have "stepLogInv st1"
    unfolding st1 using logMsg_other_inv [OF _ i] by (simp add: other_messages)
  then show ?thesis
    using tmo by (simp add: st1 emptyState_def)
qed

text \<open>
  C3, as stated, fails for a timeout of less than ten seconds: the run below has seen one
  sample, \<open>completed\<close>, seven seconds after the start, with the flag unset; it does not
  keep polling, the deadline of five seconds has passed at the next test of the loop
  condition and the handler returns the timeout text.
\<close>

theorem C3_counterexample:
  "askStart (envWith snapReviewed 1000) argsHello world0 =
     (Ready 3000 5000 (emptyState \<lparr> progressLog := [logLine 1 (rocket @ str '' Task started'')] \<rparr>),
      \<lparr> hist = [Evaluate LocationHref, SendPrompt (str ''hello''), DateNow, DateNow,
               ConsoleError (logLine 1 (rocket @ str '' Task started''))],
       attached = None \<rparr>) \<and>
   \<not> sawWorkingState (emptyState \<lparr> progressLog := [logLine 1 (rocket @ str '' Task started'')] \<rparr>) \<and>
   getAgentStatus (envWith snapReviewed 1000)
     (sleep 2000 (snd (dateNow (envWith snapReviewed 1000)
       \<lparr> hist = [Evaluate LocationHref, SendPrompt (str ''hello''), DateNow, DateNow,
               ConsoleError (logLine 1 (rocket @ str '' Task started''))],
       attached = None \<rparr>))) =
     (Inr statusReviewed,
      \<lparr> hist = [Evaluate LocationHref, SendPrompt (str ''hello''), DateNow, DateNow,
               ConsoleError (logLine 1 (rocket @ str '' Task started'')),
               DateNow, SetTimeout 2000, ListTabsCategorized, SafeEvaluate AgentStatusScript],
       attached = None \<rparr>) \<and>
   status statusReviewed = Completed \<and>
   fst (dateNow (envWith snapReviewed 1000)
     (snd (pollLogging (envWith snapReviewed 1000) 3000 statusReviewed
        ((emptyState \<lparr> progressLog := [logLine 1 (rocket @ str '' Task started'')] \<rparr>),
         \<lparr> hist = [Evaluate LocationHref, SendPrompt (str ''hello''), DateNow, DateNow,
               ConsoleError (logLine 1 (rocket @ str '' Task started'')),
               DateNow, SetTimeout 2000, ListTabsCategorized, SafeEvaluate AgentStatusScript],
       attached = None \<rparr>)))) - 3000 = 7000 \<and>
   pollLoop (envWith snapReviewed 1000) 3000 5000 (Suc (Suc 0)) (emptyState \<lparr> progressLog := [logLine 1 (rocket @ str '' Task started'')] \<rparr>) []
     \<lparr> hist = [Evaluate LocationHref, SendPrompt (str ''hello''), DateNow, DateNow,
               ConsoleError (logLine 1 (rocket @ str '' Task started''))],
       attached = None \<rparr> =
     Some (DeadlineReached, (emptyState \<lparr> progressLog := [logLine 1 (rocket @ str '' Task started'')] \<rparr>), [statusReviewed],
       \<lparr> hist = [Evaluate LocationHref, SendPrompt (str ''hello''), DateNow, DateNow,
                ConsoleError (logLine 1 (rocket @ str '' Task started'')),
                DateNow, SetTimeout 2000, ListTabsCategorized, SafeEvaluate AgentStatusScript, DateNow,
                DateNow],
         attached = None \<rparr>) \<and>
   (\<exists>w3. cometAsk (envWith snapReviewed 1000) (Suc (Suc 0)) argsHello world0 =
      Some (Inr (textResult (timeoutText 5000
                   [logLine 1 (rocket @ str '' Task started''),
                    logLine 9 (alarmClock @ str '' Timeout'')])), w3))"
proof -
  have n: "\<not> sawWorkingState (emptyState \<lparr> progressLog := [logLine 1 (rocket @ str '' Task started'')] \<rparr>)"
    by (simp add: emptyState_def)
  have g: "getAgentStatus (envWith snapReviewed 1000)
     (sleep 2000 (snd (dateNow (envWith snapReviewed 1000)
       \<lparr> hist = [Evaluate LocationHref, SendPrompt (str ''hello''), DateNow, DateNow,
               ConsoleError (logLine 1 (rocket @ str '' Task started''))],
       attached = None \<rparr>))) =
     (Inr statusReviewed,
      \<lparr> hist = [Evaluate LocationHref, SendPrompt (str ''hello''), DateNow, DateNow,
               ConsoleError (logLine 1 (rocket @ str '' Task started'')),
               DateNow, SetTimeout 2000, ListTabsCategorized, SafeEvaluate AgentStatusScript],
       attached = None \<rparr>)"
    by (simp add: dateNow_eq sleep_def perform_def getAgentStatus_reviewed)
  have l: "pollLogging (envWith snapReviewed 1000) 3000 statusReviewed
        ((emptyState \<lparr> progressLog := [logLine 1 (rocket @ str '' Task started'')] \<rparr>),
         \<lparr> hist = [Evaluate LocationHref, SendPrompt (str ''hello''), DateNow, DateNow,
               ConsoleError (logLine 1 (rocket @ str '' Task started'')),
               DateNow, SetTimeout 2000, ListTabsCategorized, SafeEvaluate AgentStatusScript],
       attached = None \<rparr>) =
        ((emptyState \<lparr> progressLog := [logLine 1 (rocket @ str '' Task started'')] \<rparr>),
         \<lparr> hist = [Evaluate LocationHref, SendPrompt (str ''hello''), DateNow, DateNow,
               ConsoleError (logLine 1 (rocket @ str '' Task started'')),
               DateNow, SetTimeout 2000, ListTabsCategorized, SafeEvaluate AgentStatusScript],
       attached = None \<rparr>)"
    by (simp add: pollLogging_def logUrlChange_def trackWorking_def statusReviewed_fields)
  have e: "fst (dateNow (envWith snapReviewed 1000)
     (snd (pollLogging (envWith snapReviewed 1000) 3000 statusReviewed
        ((emptyState \<lparr> progressLog := [logLine 1 (rocket @ str '' Task started'')] \<rparr>),
         \<lparr> hist = [Evaluate LocationHref, SendPrompt (str ''hello''), DateNow, DateNow,
               ConsoleError (logLine 1 (rocket @ str '' Task started'')),
               DateNow, SetTimeout 2000, ListTabsCategorized, SafeEvaluate AgentStatusScript],
       attached = None \<rparr>)))) - 3000 = 7000"
    unfolding l by (simp add: dateNow_eq)
  have c: "\<exists>w3. cometAsk (envWith snapReviewed 1000) (Suc (Suc 0)) argsHello world0 =
      Some (Inr (textResult (timeoutText 5000
                   [logLine 1 (rocket @ str '' Task started''),
                    logLine 9 (alarmClock @ str '' Timeout'')])), w3)"
    by (simp add: cometAsk_def reviewed_start reviewed_short_run logMsg_eq roundSeconds_values)
  from reviewed_start n g statusReviewed_fields(1) e reviewed_short_run c show ?thesis
    by (intro conjI)
qed

text \<open>
  C3, amended. A run of the polling loop that starts without the flag \<open>sawWorkingState\<close>
  (as every run of \<open>comet_ask\<close> does) and ends by returning a result: the last status polled
  is \<open>completed\<close>, the result is made from it, and either an earlier poll of the run
  returned \<open>working\<close> or the clock reading of the grace test, minus the start time, exceeds
  10000 milliseconds. In one pass through the loop body: when the status is \<open>completed\<close>,
  the flag is not set and that reading is at most 10000 milliseconds after the start, the
  body returns nothing, with the flag still unset, and the loop goes back to its
  condition: the run from this pass on is the run from that test on, with one more
  status observed. At its condition, while the clock reading minus the start time is
  below the timeout, the loop polls once more (the poll throws, or the run has its status
  as the next one observed); when it is not, the loop ends there, at the deadline. A run
  only ends at the deadline when the clock has reached it. So the run keeps polling until
  the deadline, not beyond.
\<close>

theorem C3_completed_needs_working_or_grace:
  "(pollLoop E t tmo fuel st [] w = Some (Returned res, st', obs, w') \<and> \<not> sawWorkingState st \<longrightarrow>
      obs \<noteq> [] \<and> status (last obs) = Completed \<and> res = completedOutput (last obs) \<and>
      ((\<exists>s \<in> set (butlast obs). status s = Working) \<or> 10000 < graceReading E w' - t)) \<and>
   (status s = Completed \<and> \<not> sawWorkingState stb \<and>
    fst (dateNow E (snd (pollLogging E t s (stb, wb)))) - t \<le> 10000 \<longrightarrow>
      fst (pollBody E t s (stb, wb)) = None \<and>
      \<not> sawWorkingState (fst (snd (pollBody E t s (stb, wb))))) \<and>
   (fst (dateNow E wa) - t < tmo \<and>
    getAgentStatus E (sleep 2000 (snd (dateNow E wa))) = (Inr s, wb) \<and>
    status s = Completed \<and> \<not> sawWorkingState stb \<and>
    fst (dateNow E (snd (pollLogging E t s (stb, wb)))) - t \<le> 10000 \<longrightarrow>
      pollLoop E t tmo (Suc fuel) stb obsb wa =
        pollLoop E t tmo fuel (fst (snd (pollBody E t s (stb, wb)))) (obsb @ [s])
          (snd (snd (pollBody E t s (stb, wb))))) \<and>
   (fst (dateNow E wa) - t < tmo \<and>
    pollLoop E t tmo (Suc fuel) stb obsb wa = Some (ex, stc, obsc, wc) \<longrightarrow>
      (\<exists>e. ex = Threw e) \<or>
      (\<exists>s2. fst (getAgentStatus E (sleep 2000 (snd (dateNow E wa)))) = Inr s2 \<and>
            prefix (obsb @ [s2]) obsc)) \<and>
   (\<not> fst (dateNow E wa) - t < tmo \<longrightarrow>
      pollLoop E t tmo (Suc fuel) stb obsb wa = Some (DeadlineReached, stb, obsb, snd (dateNow E wa))) \<and>
   (pollLoop E t tmo fuel stb obsb wa = Some (DeadlineReached, stc, obsc, wc) \<longrightarrow>
      tmo \<le> onNow E (hist wc) - t)"
proof (intro conjI impI)
  assume a: "pollLoop E t tmo fuel st [] w = Some (Returned res, st', obs, w') \<and> \<not> sawWorkingState st"
  then have l: "pollLoop E t tmo fuel st [] w = Some (Returned res, st', obs, w')"
    and n: "sawWorkingState st \<longrightarrow> (\<exists>s \<in> set []. status s = Working)"
    by simp_all
  from pollLoop_guard [OF l n]
  have g: "obs \<noteq> [] \<and> status (last obs) = Completed \<and> res = completedOutput (last obs) \<and>
      ((\<exists>s \<in> set (butlast obs). status s = Working) \<or> 10000 < graceReading E w' - t)"
    by simp
  from g show "obs \<noteq> []" by simp
  from g show "status (last obs) = Completed" by simp
  from g show "res = completedOutput (last obs)" by simp
  from g show "(\<exists>s \<in> set (butlast obs). status s = Working) \<or> 10000 < graceReading E w' - t" by simp
next
  assume b: "status s = Completed \<and> \<not> sawWorkingState stb \<and>
    fst (dateNow E (snd (pollLogging E t s (stb, wb)))) - t \<le> 10000"
  then have c: "status s = Completed" and n: "\<not> sawWorkingState (fst (pollLogging E t s (stb, wb)))"
    and e: "fst (dateNow E (snd (pollLogging E t s (stb, wb)))) - t \<le> 10000"
    by (simp_all add: pollLogging_saw)
  from pollDecide_waits [OF c n e]
  have d: "pollBody E t s (stb, wb) =
     (None, fst (pollLogging E t s (stb, wb)), snd (dateNow E (snd (pollLogging E t s (stb, wb)))))"
    by (simp add: pollBody_def)
  from d show "fst (pollBody E t s (stb, wb)) = None" by simp
  from d n show "\<not> sawWorkingState (fst (snd (pollBody E t s (stb, wb))))" by simp
next
  assume "fst (dateNow E wa) - t < tmo \<and>
    getAgentStatus E (sleep 2000 (snd (dateNow E wa))) = (Inr s, wb) \<and>
    status s = Completed \<and> \<not> sawWorkingState stb \<and>
    fst (dateNow E (snd (pollLogging E t s (stb, wb)))) - t \<le> 10000"
  then show "pollLoop E t tmo (Suc fuel) stb obsb wa =
        pollLoop E t tmo fuel (fst (snd (pollBody E t s (stb, wb)))) (obsb @ [s])
          (snd (snd (pollBody E t s (stb, wb))))"
    using pollLoop_waits by blast
next
  assume "fst (dateNow E wa) - t < tmo \<and>
    pollLoop E t tmo (Suc fuel) stb obsb wa = Some (ex, stc, obsc, wc)"
  then show "(\<exists>e. ex = Threw e) \<or>
      (\<exists>s2. fst (getAgentStatus E (sleep 2000 (snd (dateNow E wa)))) = Inr s2 \<and>
            prefix (obsb @ [s2]) obsc)"
    using pollLoop_polls by blast
next
  assume "\<not> fst (dateNow E wa) - t < tmo"
  then show "pollLoop E t tmo (Suc fuel) stb obsb wa = Some (DeadlineReached, stb, obsb, snd (dateNow E wa))"
    by (rule pollLoop_stops)
next
  assume "pollLoop E t tmo fuel stb obsb wa = Some (DeadlineReached, stc, obsc, wc)"
  then show "tmo \<le> onNow E (hist wc) - t"
    by (rule pollLoop_deadline)
qed

text \<open>
  A page that shows \<open>completed\<close> from the start, with a clock that advances one second
  at each call and a timeout of five minutes: the polls at 5 and at 10 seconds are not
  accepted and the loop goes on, the poll at 15 seconds is. With a timeout of three
  seconds the same run ends at the test that follows the first poll.
\<close>

theorem C3_witness:
  "pollLoop (envWith snapReviewed 1000) 0 300000 (Suc (Suc (Suc 0))) emptyState [] world0 =
     Some (Returned (textResult (str ''Answer text here'')),
       emptyState \<lparr> progressLog := [logLine 16 (checkMark @ str '' Task completed (quick response)'')] \<rparr>,
       [statusReviewed, statusReviewed, statusReviewed],
       \<lparr> hist = [DateNow, SetTimeout 2000, ListTabsCategorized, SafeEvaluate AgentStatusScript, DateNow,
              DateNow, SetTimeout 2000, ListTabsCategorized, SafeEvaluate AgentStatusScript, DateNow,
              DateNow, SetTimeout 2000, ListTabsCategorized, SafeEvaluate AgentStatusScript, DateNow,
              DateNow,
              ConsoleError (logLine 16 (checkMark @ str '' Task completed (quick response)''))],
       attached = None \<rparr>) \<and>
   \<not> sawWorkingState emptyState \<and>
   status (last [statusReviewed, statusReviewed, statusReviewed]) = Completed \<and>
   graceReading (envWith snapReviewed 1000)
     \<lparr> hist = [DateNow, SetTimeout 2000, ListTabsCategorized, SafeEvaluate AgentStatusScript, DateNow,
              DateNow, SetTimeout 2000, ListTabsCategorized, SafeEvaluate AgentStatusScript, DateNow,
              DateNow, SetTimeout 2000, ListTabsCategorized, SafeEvaluate AgentStatusScript, DateNow,
              DateNow,
              ConsoleError (logLine 16 (checkMark @ str '' Task completed (quick response)''))],
       attached = None \<rparr> = 15000 \<and>
   fst (dateNow (envWith snapReviewed 1000) world0) - 0 < 300000 \<and>
   getAgentStatus (envWith snapReviewed 1000)
     (sleep 2000 (snd (dateNow (envWith snapReviewed 1000) world0))) =
     (Inr statusReviewed,
      \<lparr> hist = [DateNow, SetTimeout 2000, ListTabsCategorized, SafeEvaluate AgentStatusScript], attached = None \<rparr>) \<and>
   fst (dateNow (envWith snapReviewed 1000)
     (snd (pollLogging (envWith snapReviewed 1000) 0 statusReviewed
        (emptyState,
         \<lparr> hist = [DateNow, SetTimeout 2000, ListTabsCategorized, SafeEvaluate AgentStatusScript], attached = None \<rparr>)))) - 0 \<le> 10000 \<and>
   fst (pollBody (envWith snapReviewed 1000) 0 statusReviewed
     (emptyState,
      \<lparr> hist = [DateNow, SetTimeout 2000, ListTabsCategorized, SafeEvaluate AgentStatusScript], attached = None \<rparr>)) = None \<and>
   pollLoop (envWith snapReviewed 1000) 0 300000 (Suc (Suc 0)) emptyState [statusReviewed]
     \<lparr> hist = [DateNow, SetTimeout 2000, ListTabsCategorized, SafeEvaluate AgentStatusScript, DateNow],
       attached = None \<rparr> =
     Some (Returned (textResult (str ''Answer text here'')),
       emptyState \<lparr> progressLog := [logLine 16 (checkMark @ str '' Task completed (quick response)'')] \<rparr>,
       [statusReviewed, statusReviewed, statusReviewed],
       \<lparr> hist = [DateNow, SetTimeout 2000, ListTabsCategorized, SafeEvaluate AgentStatusScript, DateNow,
              DateNow, SetTimeout 2000, ListTabsCategorized, SafeEvaluate AgentStatusScript, DateNow,
              DateNow, SetTimeout 2000, ListTabsCategorized, SafeEvaluate AgentStatusScript, DateNow,
              DateNow,
              ConsoleError (logLine 16 (checkMark @ str '' Task completed (quick response)''))],
       attached = None \<rparr>) \<and>
   \<not> fst (dateNow (envWith snapReviewed 1000)
     \<lparr> hist = [DateNow, SetTimeout 2000, ListTabsCategorized, SafeEvaluate AgentStatusScript, DateNow],
       attached = None \<rparr>) - 0 < 3000 \<and>
   pollLoop (envWith snapReviewed 1000) 0 3000 (Suc 0) emptyState [statusReviewed]
     \<lparr> hist = [DateNow, SetTimeout 2000, ListTabsCategorized, SafeEvaluate AgentStatusScript, DateNow],
       attached = None \<rparr> =
     Some (DeadlineReached, emptyState, [statusReviewed],
       \<lparr> hist = [DateNow, SetTimeout 2000, ListTabsCategorized, SafeEvaluate AgentStatusScript, DateNow,
              DateNow],
       attached = None \<rparr>) \<and>
   3000 \<le> onNow (envWith snapReviewed 1000) (hist
     \<lparr> hist = [DateNow, SetTimeout 2000, ListTabsCategorized, SafeEvaluate AgentStatusScript, DateNow,
              DateNow],
       attached = None \<rparr>) - 0 \<and>
   prefix [statusReviewed] [statusReviewed, statusReviewed, statusReviewed]"
proof -
  note polls = C3_completed_needs_working_or_grace
    [where fuel = "Suc (Suc 0)" and obsb = "[]" and stb = emptyState,
     THEN conjunct2, THEN conjunct2, THEN conjunct2, THEN conjunct1]
  note reached = C3_completed_needs_working_or_grace
    [THEN conjunct2, THEN conjunct2, THEN conjunct2, THEN conjunct2, THEN conjunct2]
  note returned = C3_completed_needs_working_or_grace [THEN conjunct1]
  note waits = C3_completed_needs_working_or_grace [THEN conjunct2, THEN conjunct1]
  note goes_on = C3_completed_needs_working_or_grace
    [where fuel = "Suc (Suc 0)" and obsb = "[]", THEN conjunct2, THEN conjunct2, THEN conjunct1]
  note deadline = C3_completed_needs_working_or_grace
    [where fuel = 0 and obsb = "[statusReviewed]" and stb = emptyState,
     THEN conjunct2, THEN conjunct2, THEN conjunct2, THEN conjunct2, THEN conjunct1]
  have n: "\<not> sawWorkingState emptyState"
    by (simp add: emptyState_def)
  have gr: "graceReading (envWith snapReviewed 1000)
     \<lparr> hist = [DateNow, SetTimeout 2000, ListTabsCategorized, SafeEvaluate AgentStatusScript, DateNow,
              DateNow, SetTimeout 2000, ListTabsCategorized, SafeEvaluate AgentStatusScript, DateNow,
              DateNow, SetTimeout 2000, ListTabsCategorized, SafeEvaluate AgentStatusScript, DateNow,
              DateNow,
              ConsoleError (logLine 16 (checkMark @ str '' Task completed (quick response)''))],
       attached = None \<rparr> = 15000"
    by (simp add: graceReading_def)
  have d0: "fst (dateNow (envWith snapReviewed 1000) world0) - 0 < 300000"
    by (simp add: dateNow_eq world0_def)
  have g: "getAgentStatus (envWith snapReviewed 1000)
     (sleep 2000 (snd (dateNow (envWith snapReviewed 1000) world0))) =
     (Inr statusReviewed,
      \<lparr> hist = [DateNow, SetTimeout 2000, ListTabsCategorized, SafeEvaluate AgentStatusScript], attached = None \<rparr>)"
    by (simp add: dateNow_eq sleep_def perform_def getAgentStatus_reviewed world0_def)
  have l: "pollLogging (envWith snapReviewed 1000) 0 statusReviewed
        (emptyState,
         \<lparr> hist = [DateNow, SetTimeout 2000, ListTabsCategorized, SafeEvaluate AgentStatusScript], attached = None \<rparr>) =
        (emptyState,
         \<lparr> hist = [DateNow, SetTimeout 2000, ListTabsCategorized, SafeEvaluate AgentStatusScript], attached = None \<rparr>)"
    by (simp add: pollLogging_def logUrlChange_def trackWorking_def statusReviewed_fields)
  have e: "fst (dateNow (envWith snapReviewed 1000)
     (snd (pollLogging (envWith snapReviewed 1000) 0 statusReviewed
        (emptyState,
         \<lparr> hist = [DateNow, SetTimeout 2000, ListTabsCategorized, SafeEvaluate AgentStatusScript], attached = None \<rparr>)))) - 0 \<le> 10000"
    unfolding l by (simp add: dateNow_eq)
  have b: "pollBody (envWith snapReviewed 1000) 0 statusReviewed
     (emptyState,
      \<lparr> hist = [DateNow, SetTimeout 2000, ListTabsCategorized, SafeEvaluate AgentStatusScript], attached = None \<rparr>) =
     (None, emptyState,
      \<lparr> hist = [DateNow, SetTimeout 2000, ListTabsCategorized, SafeEvaluate AgentStatusScript, DateNow],
       attached = None \<rparr>)"
    using n by (simp add: reviewed_pass)
  have d1: "\<not> fst (dateNow (envWith snapReviewed 1000)
     \<lparr> hist = [DateNow, SetTimeout 2000, ListTabsCategorized, SafeEvaluate AgentStatusScript, DateNow],
       attached = None \<rparr>) - 0 < 3000"
    by (simp add: dateNow_eq)
  have d2: "snd (dateNow (envWith snapReviewed 1000)
     \<lparr> hist = [DateNow, SetTimeout 2000, ListTabsCategorized, SafeEvaluate AgentStatusScript, DateNow],
       attached = None \<rparr>) =
     \<lparr> hist = [DateNow, SetTimeout 2000, ListTabsCategorized, SafeEvaluate AgentStatusScript, DateNow,
              DateNow],
       attached = None \<rparr>"
    by (simp add: dateNow_eq)
  from mp [OF returned conjI [OF reviewed_three_polls n]]
  have q: "status (last [statusReviewed, statusReviewed, statusReviewed]) = Completed"
    by simp
  have h2: "status statusReviewed = Completed \<and> \<not> sawWorkingState emptyState \<and>
     fst (dateNow (envWith snapReviewed 1000)
       (snd (pollLogging (envWith snapReviewed 1000) 0 statusReviewed
          (emptyState,
           \<lparr> hist = [DateNow, SetTimeout 2000, ListTabsCategorized, SafeEvaluate AgentStatusScript], attached = None \<rparr>)))) - 0 \<le> 10000"
    using statusReviewed_fields(1) n e by (intro conjI)
  from mp [OF waits h2]
  have p: "fst (pollBody (envWith snapReviewed 1000) 0 statusReviewed
     (emptyState,
      \<lparr> hist = [DateNow, SetTimeout 2000, ListTabsCategorized, SafeEvaluate AgentStatusScript], attached = None \<rparr>)) = None"
    by simp
  have h3: "fst (dateNow (envWith snapReviewed 1000) world0) - 0 < 300000 \<and>
     getAgentStatus (envWith snapReviewed 1000)
       (sleep 2000 (snd (dateNow (envWith snapReviewed 1000) world0))) =
       (Inr statusReviewed,
        \<lparr> hist = [DateNow, SetTimeout 2000, ListTabsCategorized, SafeEvaluate AgentStatusScript], attached = None \<rparr>) \<and>
     status statusReviewed = Completed \<and> \<not> sawWorkingState emptyState \<and>
     fst (dateNow (envWith snapReviewed 1000)
       (snd (pollLogging (envWith snapReviewed 1000) 0 statusReviewed
          (emptyState,
           \<lparr> hist = [DateNow, SetTimeout 2000, ListTabsCategorized, SafeEvaluate AgentStatusScript], attached = None \<rparr>)))) - 0 \<le> 10000"
    using d0 g statusReviewed_fields(1) n e by (intro conjI)
  from mp [OF goes_on h3]
  have "pollLoop (envWith snapReviewed 1000) 0 300000 (Suc (Suc (Suc 0))) emptyState [] world0 =
        pollLoop (envWith snapReviewed 1000) 0 300000 (Suc (Suc 0))
          (fst (snd (pollBody (envWith snapReviewed 1000) 0 statusReviewed
             (emptyState,
              \<lparr> hist = [DateNow, SetTimeout 2000, ListTabsCategorized, SafeEvaluate AgentStatusScript], attached = None \<rparr>))))
          ([] @ [statusReviewed])
          (snd (snd (pollBody (envWith snapReviewed 1000) 0 statusReviewed
             (emptyState,
              \<lparr> hist = [DateNow, SetTimeout 2000, ListTabsCategorized, SafeEvaluate AgentStatusScript], attached = None \<rparr>))))" .
  then have c: "pollLoop (envWith snapReviewed 1000) 0 300000 (Suc (Suc 0)) emptyState [statusReviewed]
     \<lparr> hist = [DateNow, SetTimeout 2000, ListTabsCategorized, SafeEvaluate AgentStatusScript, DateNow],
       attached = None \<rparr> =
     Some (Returned (textResult (str ''Answer text here'')),
       emptyState \<lparr> progressLog := [logLine 16 (checkMark @ str '' Task completed (quick response)'')] \<rparr>,
       [statusReviewed, statusReviewed, statusReviewed],
       \<lparr> hist = [DateNow, SetTimeout 2000, ListTabsCategorized, SafeEvaluate AgentStatusScript, DateNow,
              DateNow, SetTimeout 2000, ListTabsCategorized, SafeEvaluate AgentStatusScript, DateNow,
              DateNow, SetTimeout 2000, ListTabsCategorized, SafeEvaluate AgentStatusScript, DateNow,
              DateNow,
              ConsoleError (logLine 16 (checkMark @ str '' Task completed (quick response)''))],
       attached = None \<rparr>)"
    unfolding b using reviewed_three_polls by simp
  from mp [OF deadline d1]
  have s: "pollLoop (envWith snapReviewed 1000) 0 3000 (Suc 0) emptyState [statusReviewed]
     \<lparr> hist = [DateNow, SetTimeout 2000, ListTabsCategorized, SafeEvaluate AgentStatusScript, DateNow],
       attached = None \<rparr> =
     Some (DeadlineReached, emptyState, [statusReviewed],
       \<lparr> hist = [DateNow, SetTimeout 2000, ListTabsCategorized, SafeEvaluate AgentStatusScript, DateNow,
              DateNow],
       attached = None \<rparr>)"
    unfolding d2 .
  from mp [OF reached s]
  have r: "3000 \<le> onNow (envWith snapReviewed 1000) (hist
     \<lparr> hist = [DateNow, SetTimeout 2000, ListTabsCategorized, SafeEvaluate AgentStatusScript, DateNow,
              DateNow],
       attached = None \<rparr>) - 0" .
  from mp [OF polls conjI [OF d0 reviewed_three_polls]] g
  have o: "prefix [statusReviewed] [statusReviewed, statusReviewed, statusReviewed]"
    by auto
  from reviewed_three_polls n q gr d0 g e p c d1 s r o show ?thesis
    by (intro conjI)
qed

text \<open>
  C5, as stated, fails: the progress log also takes the current-step entries of line
  215, which hold the same text. In the run below two polls in a row return the step
  \<open>Searching foo\<close>, and the URL of the agent's tab changes between them. After the first
  poll the log has two entries with the text (the step entry and the current-step entry),
  and the second poll adds a third one, since the entry of the URL change has come in
  between.
\<close>

theorem C5_counterexample:
  "pollLoop envBrowsing 0 20000 (Suc (Suc (Suc 0))) emptyState [] world0 =
     Some (DeadlineReached,
       \<lparr> progressLog = browsingLog,
         seenSteps = [str ''Searching foo''], lastUrl = urlB, sawWorkingState = True \<rparr>,
       [statusBrowsing urlA, statusBrowsing urlB],
       \<lparr> hist = [DateNow, SetTimeout 2000, ListTabsCategorized, SafeEvaluate AgentStatusScript,
                DateNow, ConsoleError (logLine 5 (clipboard @ str '' '' @ str ''Searching foo'')),
                DateNow, ConsoleError (logLine 7 (globe @ str '' '' @ urlA)),
                DateNow, ConsoleError (logLine 9 (gear @ str '' Task processing...'')),
                DateNow, ConsoleError (logLine 11 (hourglass @ str '' '' @ str ''Searching foo'')),
                DateNow, SetTimeout 2000, ListTabsCategorized, SafeEvaluate AgentStatusScript,
                DateNow, ConsoleError (logLine 17 (globe @ str '' '' @ urlB)),
                DateNow, ConsoleError (logLine 19 (hourglass @ str '' '' @ str ''Searching foo'')),
                DateNow],
         attached = None \<rparr>) \<and>
   steps (statusBrowsing urlA) = [str ''Searching foo''] \<and>
   steps (statusBrowsing urlB) = [str ''Searching foo''] \<and>
   progressLog (fst (snd (pollBody envBrowsing 0 (statusBrowsing urlA)
     (emptyState, \<lparr> hist = [DateNow, SetTimeout 2000, ListTabsCategorized,
                             SafeEvaluate AgentStatusScript], attached = None \<rparr>)))) =
     take 4 browsingLog \<and>
   textEntries (str ''Searching foo'') (take 4 browsingLog) = 2 \<and>
   textEntries (str ''Searching foo'') browsingLog = 3"
  using browsing_run statusBrowsing_fields(2) browsing_first_poll browsing_count_first browsing_count
  by simp

text \<open>
  C5, amended. In a run of the polling loop that starts from a state in which no step text
  has more than its one step entry (as every run of \<open>comet_ask\<close> does), whatever the number
  of polls and whatever they return: no step text has more than one step entry in the log
  at the end, and each step text that some poll of the run has returned has exactly one.
  A step entry is a line whose message is the clipboard sign and the step text. The
  current-step entries, hourglass and step text, are further lines with the same text:
  after a pass of the loop body with the status \<open>working\<close> and a current step, the last line
  of the log includes the current step (the pass appends the current-step entry unless
  the last line already includes it), and no run adds a current-step entry right after
  a line that includes its text.
\<close>

theorem C5_step_logged_once:
  assumes "stepLogInv st"
    and "pollLoop E t tmo fuel st [] w = Some (ex, st', obs, w')"
  shows "(\<forall>step. stepEntries step (progressLog st') \<le> 1) \<and>
         (\<forall>s \<in> set obs. \<forall>step \<in> set (steps s). stepEntries step (progressLog st') = 1) \<and>
         (noStaleEntry (progressLog st) \<longrightarrow> noStaleEntry (progressLog st')) \<and>
         (status s = Working \<and> currentStep s \<noteq> [] \<longrightarrow>
            progressLog (fst (snd (pollBody E t s (stb, wb)))) \<noteq> [] \<and>
            includesStr (last (progressLog (fst (snd (pollBody E t s (stb, wb)))))) (currentStep s))"
proof -
  have e: "\<forall>s \<in> set []. set (steps s) \<subseteq> set (seenSteps st)"
    by simp
  from pollLoop_steps [OF assms(2) assms(1) e]
  have i: "stepLogInv st'" and o: "\<forall>s \<in> set obs. set (steps s) \<subseteq> set (seenSteps st')"
    by simp_all
  from i have a: "\<forall>step. stepEntries step (progressLog st') \<le> 1"
    by (simp add: stepLogInv_def)
  from i o have b: "\<forall>s \<in> set obs. \<forall>step \<in> set (steps s). stepEntries step (progressLog st') = 1"
    by (auto simp: stepLogInv_def)
  have c: "noStaleEntry (progressLog st) \<longrightarrow> noStaleEntry (progressLog st')"
    using pollLoop_fresh [OF assms(2)] by blast
  have d: "status s = Working \<and> currentStep s \<noteq> [] \<longrightarrow>
            progressLog (fst (snd (pollBody E t s (stb, wb)))) \<noteq> [] \<and>
            includesStr (last (progressLog (fst (snd (pollBody E t s (stb, wb)))))) (currentStep s)"
    using pollBody_shows by blast
  from a b c d show ?thesis by blast
qed

text \<open>
  The same run: the step \<open>Searching foo\<close> has one step entry, the log has no stale entry,
  and after the second poll its last line includes the current step.
\<close>

theorem C5_witness:
  "stepLogInv emptyState \<and>
   pollLoop envBrowsing 0 20000 (Suc (Suc (Suc 0))) emptyState [] world0 =
     Some (DeadlineReached,
       \<lparr> progressLog = browsingLog,
         seenSteps = [str ''Searching foo''], lastUrl = urlB, sawWorkingState = True \<rparr>,
       [statusBrowsing urlA, statusBrowsing urlB],
       \<lparr> hist = [DateNow, SetTimeout 2000, ListTabsCategorized, SafeEvaluate AgentStatusScript,
                DateNow, ConsoleError (logLine 5 (clipboard @ str '' '' @ str ''Searching foo'')),
                DateNow, ConsoleError (logLine 7 (globe @ str '' '' @ urlA)),
                DateNow, ConsoleError (logLine 9 (gear @ str '' Task processing...'')),
                DateNow, ConsoleError (logLine 11 (hourglass @ str '' '' @ str ''Searching foo'')),
                DateNow, SetTimeout 2000, ListTabsCategorized, SafeEvaluate AgentStatusScript,
                DateNow, ConsoleError (logLine 17 (globe @ str '' '' @ urlB)),
                DateNow, ConsoleError (logLine 19 (hourglass @ str '' '' @ str ''Searching foo'')),
                DateNow],
         attached = None \<rparr>) \<and>
   steps (statusBrowsing urlA) = [str ''Searching foo''] \<and>
   stepEntries (str ''Searching foo'') browsingLog = 1 \<and>
   noStaleEntry (progressLog emptyState) \<and>
   noStaleEntry browsingLog \<and>
   status (statusBrowsing urlB) = Working \<and>
   currentStep (statusBrowsing urlB) = str ''Searching foo'' \<and>
   str ''Searching foo'' \<noteq> [] \<and>
   includesStr (last browsingLog) (str ''Searching foo'')"
proof -
  have i: "stepLogInv emptyState"
    by (simp add: stepLogInv_def stepEntries_def emptyState_def)
  have n: "noStaleEntry (progressLog emptyState)"
    by (simp add: emptyState_def)
  note main = C5_step_logged_once [OF i browsing_run,
    where s = "statusBrowsing urlB" and stb = "\<lparr> progressLog = take 4 browsingLog,
        seenSteps = [str ''Searching foo''], lastUrl = urlA, sawWorkingState = True \<rparr>"
      and wb = "\<lparr> hist = [DateNow, SetTimeout 2000, ListTabsCategorized, SafeEvaluate AgentStatusScript,
                DateNow, ConsoleError (logLine 5 (clipboard @ str '' '' @ str ''Searching foo'')),
                DateNow, ConsoleError (logLine 7 (globe @ str '' '' @ urlA)),
                DateNow, ConsoleError (logLine 9 (gear @ str '' Task processing...'')),
                DateNow, ConsoleError (logLine 11 (hourglass @ str '' '' @ str ''Searching foo'')),
                DateNow, SetTimeout 2000, ListTabsCategorized, SafeEvaluate AgentStatusScript],
        attached = None \<rparr>"]
  from main have "stepEntries (str ''Searching foo'') browsingLog = 1"
    by (simp add: statusBrowsing_fields)
  moreover from main n have "noStaleEntry browsingLog"
    by simp
  moreover from main have "includesStr (last browsingLog) (str ''Searching foo'')"
    by (simp add: statusBrowsing_fields searching_nonempty browsing_second_poll)
  ultimately show ?thesis
    using i n browsing_run statusBrowsing_fields searching_nonempty by simp
qed



end
